(* ===== verification/NHA_Prelude.thy ===== *)
theory NHA_Prelude
  imports Main "HOL-Library.Word" "HOL-Library.Monad_Syntax"
begin

unbundle bit_operations_syntax

text \<open>
  Shared vocabulary of the development.

  \<^item> The machine integers of the C++ sources as words of their width.
  \<^item> Memory buffers as byte lists with checked accesses: a read or a write outside
    the buffer is \<open>None\<close>, the undefined behaviour of the C++ program, and every
    memory-safety result below says that \<open>None\<close> is not reached.
  \<^item> A locale of fixed-width byte codecs, interpreted by the little-endian
    conversions of the daemon and of the test client.
  \<^item> Generic facts on lists and words used by all components.
\<close>

section \<open>Types and lemma collections\<close>

type_synonym u8 = "8 word"
type_synonym u16 = "16 word"
type_synonym u32 = "32 word"
type_synonym u64 = "64 word"
type_synonym u128 = "128 word"
type_synonym bytes = "u8 list"

named_theorems buf_simps \<open>rewrite rules of checked buffer accesses\<close>
named_theorems size_consts \<open>the unfoldings of the sources' size constants\<close>

section \<open>Checked buffer accesses\<close>

definition rd :: "'a list \<Rightarrow> nat \<Rightarrow> 'a option" where
  "rd buf i = (if i < length buf then Some (buf ! i) else None)"

definition wr :: "'a list \<Rightarrow> nat \<Rightarrow> 'a \<Rightarrow> 'a list option" where
  "wr buf i v = (if i < length buf then Some (buf[i := v]) else None)"

text \<open>The copy loops \<open>for (i = 0; i < n; ++i) buf[p + i] = v[i]\<close>.\<close>

fun wr_bytes :: "'a list \<Rightarrow> nat \<Rightarrow> 'a list \<Rightarrow> 'a list option" where
  "wr_bytes buf p [] = Some buf"
| "wr_bytes buf p (v # vs) = do { buf' \<leftarrow> wr buf p v; wr_bytes buf' (Suc p) vs }"

text \<open>The read loops \<open>for (i = 0; i < n; ++i) ... buf[p + i]\<close>.\<close>

fun rd_bytes :: "'a list \<Rightarrow> nat \<Rightarrow> nat \<Rightarrow> 'a list option" where
  "rd_bytes buf p 0 = Some []"
| "rd_bytes buf p (Suc n) = do { v \<leftarrow> rd buf p; vs \<leftarrow> rd_bytes buf (Suc p) n; Some (v # vs) }"

lemma rd_in [buf_simps]: "i < length buf \<Longrightarrow> rd buf i = Some (buf ! i)"
  by (simp add: rd_def)

lemma rd_eq_Some [simp]: "rd buf i = Some v \<longleftrightarrow> i < length buf \<and> buf ! i = v"
  by (auto simp: rd_def)

lemma wr_in [buf_simps]: "i < length buf \<Longrightarrow> wr buf i v = Some (buf[i := v])"
  by (simp add: wr_def)

lemma wr_bytes_in [buf_simps]:
  "p + length vs \<le> length buf \<Longrightarrow>
   wr_bytes buf p vs = Some (take p buf @ vs @ drop (p + length vs) buf)"
proof (induction vs arbitrary: buf p)
  case Nil
  then show ?case by simp
next
  case (Cons v vs)
  then have "p < length buf" by simp
  with Cons show ?case
    by (simp add: wr_in take_Suc_conv_app_nth)
qed

lemma rd_bytes_in [buf_simps]:
  "p + n \<le> length buf \<Longrightarrow> rd_bytes buf p n = Some (take n (drop p buf))"
proof (induction n arbitrary: p)
  case 0
  then show ?case by simp
next
  case (Suc n)
  then have "p < length buf" by simp
  with Suc show ?case
    by (simp add: rd_in take_Suc_conv_app_nth Cons_nth_drop_Suc [symmetric])
qed

lemma rd_bytes_eq_Some:
  assumes "rd_bytes buf p n = Some vs"
  shows "length vs = n \<and> (0 < n \<longrightarrow> p + n \<le> length buf \<and> vs = take n (drop p buf))"
  using assms
proof (induction n arbitrary: p vs)
  case 0
  then show ?case by simp
next
  case (Suc n)
  then obtain vs' where "p < length buf" "rd_bytes buf (Suc p) n = Some vs'" "vs = buf ! p # vs'"
    by (auto simp: bind_eq_Some_conv)
  moreover from Suc.IH [OF this(2)] have "length vs' = n"
    and "0 < n \<longrightarrow> Suc p + n \<le> length buf \<and> vs' = take n (drop (Suc p) buf)"
    by auto
  ultimately show ?case
    by (cases n) (auto simp: Cons_nth_drop_Suc [symmetric])
qed

lemma wr_bytes_length: "wr_bytes buf p vs = Some buf' \<Longrightarrow> length buf' = length buf"
  by (induction vs arbitrary: buf p) (auto simp: wr_def bind_eq_Some_conv split: if_splits)

section \<open>Lists\<close>

lemma take_append_drop_prefix:
  "length xs \<le> n \<Longrightarrow> take n (xs @ ys) = xs @ take (n - length xs) ys"
  by simp

lemma split_at2: "xs = take m xs @ take n (drop m xs) @ drop (m + n) xs"
proof -
  have "drop m xs = take n (drop m xs) @ drop (m + n) xs"
    using append_take_drop_id [of n "drop m xs"] by (simp add: add.commute)
  then show ?thesis using append_take_drop_id [of m xs] by simp
qed

lemma map_nth_upt: "n \<le> length xs \<Longrightarrow> map (\<lambda>i. xs ! i) [0..<n] = take n xs"
  by (rule nth_equalityI) auto

lemma map2_xor_self [simp]: "map2 (XOR) xs (xs :: 'a::len word list) = replicate (length xs) 0"
  by (induction xs) auto

lemma map2_xor_cancel:
  "length xs = length ys \<Longrightarrow> map2 (XOR) (map2 (XOR) xs ys) (xs :: 'a::len word list) = ys"
  by (induction xs ys rule: list_induct2) (auto simp: xor.assoc xor.left_commute xor.commute)

section \<open>Words\<close>

lemma unat_u8_less: "unat (w :: u8) < 256"
  using unsigned_less [of w] by simp

lemma unat_u16_less: "unat (w :: u16) < 65536"
  using unsigned_less [of w] by simp

lemma unat_u32_less: "unat (w :: u32) < 2 ^ 32"
  using unsigned_less [of w] by simp

lemma unat_u64_less: "unat (w :: u64) < 2 ^ 64"
  using unsigned_less [of w] by simp

lemma unat_ucast_up: "LENGTH('u::len) \<le> LENGTH('t::len) \<Longrightarrow> unat (ucast (w :: 'u word) :: 't word) = unat w"
  by (simp add: unsigned_ucast_eq take_bit_nat_eq_self less_le_trans [OF unsigned_less power_increasing])

lemma ucast_and_ff: "8 \<le> LENGTH('a::len) \<Longrightarrow> ucast (w AND 0xff :: 'a word) = (ucast w :: u8)"
proof -
  assume "8 \<le> LENGTH('a)"
  moreover have "(0xff :: 'a word) = mask 8" by (simp add: mask_eq_exp_minus_1)
  ultimately show ?thesis
    by (intro bit_word_eqI) (simp only: bit_simps, auto)
qed

lemma bit_u8_less: "bit (b :: u8) n \<Longrightarrow> n < 8"
  by (drule bit_imp_le_length) simp

lemma sint_u32_small: "unat (w :: u32) < 2 ^ 31 \<Longrightarrow> sint w = int (unat w)"
proof -
  assume "unat w < 2 ^ 31"
  then have "int (unat w) < int (2 ^ 31)" by (simp only: of_nat_less_iff)
  then have "uint w < 2 ^ 31" by (simp only: uint_nat of_nat_power of_nat_numeral)
  then have "signed_take_bit 31 (uint w) = uint w"
    by (intro signed_take_bit_int_eq_self) (simp_all add: order_trans [OF _ uint_ge_0])
  then show ?thesis by (simp only: sint_uint len_num1 len_num0 uint_nat) simp
qed

lemma sint_u32_pos: "unat (w :: u32) < 2 ^ 31 \<Longrightarrow> 0 < sint w \<longleftrightarrow> w \<noteq> 0"
  by (simp only: sint_u32_small of_nat_0_less_iff unat_gt_0)

section \<open>Fixed-width byte codecs\<close>

text \<open>
  What a user of an integer encoding relies on: the encoding has one width and decoding
  undoes it. The daemon and the client each bring their own pair of functions.
\<close>

locale byte_codec =
  fixes enc :: "'v \<Rightarrow> bytes"
    and dec :: "bytes \<Rightarrow> 'v"
    and width :: nat
  assumes enc_length: "length (enc v) = width"
    and dec_enc: "dec (enc v) = v"
begin

lemma enc_inject: "enc v = enc w \<longleftrightarrow> v = w"
  using dec_enc by metis

lemma enc_append_inject: "enc v @ xs = enc w @ ys \<longleftrightarrow> v = w \<and> xs = ys"
  by (auto simp: enc_length append_eq_append_conv enc_inject)

lemma dec_take: "dec (take width (enc v @ xs)) = v"
  by (simp add: enc_length dec_enc)

end

end
