(* ===== verification/CxxString.thy ===== *)
theory CxxString
  imports NHA_Prelude
begin

text \<open>
  The parts of the C and C++ standard libraries for characters and numbers in text that the
  daemon and the client share: character classes of the classic locale, decimal and
  hexadecimal digits.
\<close>

section \<open>Character classes\<close>

text \<open>The characters that \<open>std::isspace\<close> accepts in the classic locale.\<close>

definition is_space :: "char \<Rightarrow> bool" where
  "is_space c \<longleftrightarrow> of_char c \<in> {32, 9, 10, 11, 12, 13 :: nat}"

definition is_digit :: "char \<Rightarrow> bool" where
  "is_digit c \<longleftrightarrow> of_char c \<in> {48 .. 57 :: nat}"

definition is_alpha :: "char \<Rightarrow> bool" where
  "is_alpha c \<longleftrightarrow> of_char c \<in> {65 .. 90 :: nat} \<or> of_char c \<in> {97 .. 122 :: nat}"

definition is_alnum :: "char \<Rightarrow> bool" where
  "is_alnum c \<longleftrightarrow> is_digit c \<or> is_alpha c"

definition is_xdigit :: "char \<Rightarrow> bool" where
  "is_xdigit c \<longleftrightarrow> is_digit c \<or> of_char c \<in> {65 .. 70 :: nat} \<or> of_char c \<in> {97 .. 102 :: nat}"

text \<open>\<open>toupper(c) == 'X'\<close> and the like.\<close>

definition to_upper :: "char \<Rightarrow> char" where
  "to_upper c = (if of_char c \<in> {97 .. 122 :: nat} then char_of (of_char c - 32 :: nat) else c)"

lemma blank_chars: "is_space CHR '' ''" "is_space CHR 0x09" "is_space CHR 0x0D" "is_space CHR 0x0A"
  by (simp_all add: is_space_def)

section \<open>Numbers\<close>

definition digits_value :: "string \<Rightarrow> int" where
  "digits_value ds = foldl (\<lambda>n c. 10 * n + (of_char c - 48)) 0 ds"

text \<open>The output of an unsigned integer in decimal.\<close>

fun decimal :: "nat \<Rightarrow> string" where
  "decimal n = (if n < 10 then [char_of (48 + n)] else decimal (n div 10) @ [char_of (48 + n mod 10)])"

declare decimal.simps [simp del]

definition xdigit_value :: "char \<Rightarrow> nat" where
  "xdigit_value c =
     (let n = of_char c in if n \<le> 57 then n - 48 else if n \<le> 70 then n - 55 else n - 87)"

lemma of_char_digit: "n < 10 \<Longrightarrow> of_char (char_of (48 + n :: nat) :: char) = (48 + n :: nat)"
  by (simp add: take_bit_nat_eq_self)

lemma is_digit_char_of: "n < 10 \<Longrightarrow> is_digit (char_of (48 + n :: nat))"
  by (simp only: is_digit_def of_char_digit) simp

lemma decimal_digits: "decimal n \<noteq> [] \<and> list_all is_digit (decimal n)"
proof (induction n rule: decimal.induct)
  case (1 n)
  then show ?case using is_digit_char_of [of "n mod 10"] is_digit_char_of [of n]
    by (subst (1 2) decimal.simps) auto
qed

lemma digits_value_snoc: "digits_value (ds @ [c]) = 10 * digits_value ds + (of_char c - 48)"
  by (simp add: digits_value_def)

lemma digits_value_decimal: "digits_value (decimal n) = int n"
proof (induction n rule: decimal.induct)
  case (1 n)
  have c: "(of_char (char_of (48 + k :: nat) :: char) :: int) = 48 + int k" if "k < 10" for k
    using of_char_digit [OF that] by (metis of_nat_add of_nat_numeral of_nat_of_char)
  show ?case
  proof (cases "n < 10")
    case True
    then show ?thesis using c [OF True] by (subst decimal.simps) (simp add: digits_value_def)
  next
    case False
    then show ?thesis using 1 c [of "n mod 10"] by (subst decimal.simps) (simp add: digits_value_snoc zdiv_int zmod_int)
  qed
qed

end
