(* ===== verification/ConfigurationParser.thy ===== *)
theory ConfigurationParser
  imports CxxString
begin

text \<open>
  \<open>src/src/configurationparser.cpp\<close>: the configuration file. Strings are lists of characters,
  the hash map is a map; \<open>std::getline\<close>, \<open>operator>>\<close> for strings and the search functions
  of \<open>std::string\<close> are written out. A file is its contents, or \<open>None\<close> if it cannot be opened.
\<close>

section \<open>The standard library\<close>

text \<open>Successive calls of \<open>std::getline\<close>: the last line needs no newline, but is not empty.\<close>

function getlines :: "string \<Rightarrow> string list" where
  "getlines cs =
     (if cs = [] then []
      else takeWhile (\<lambda>c. c \<noteq> CHR 0x0A) cs # getlines (drop 1 (dropWhile (\<lambda>c. c \<noteq> CHR 0x0A) cs)))"
  by pat_completeness auto

termination getlines
proof (relation "measure length")
  fix cs :: string
  assume "cs \<noteq> []"
  then show "(drop 1 (dropWhile (\<lambda>c. c \<noteq> CHR 0x0A) cs), cs) \<in> measure length"
    using length_dropWhile_le [of "\<lambda>c. c \<noteq> CHR 0x0A" cs] by (cases cs) auto
qed simp

declare getlines.simps [simp del]

text \<open>\<open>ss >> word\<close>: the word and the rest of the stream.\<close>

definition read_word :: "string \<Rightarrow> string \<times> string" where
  "read_word ss =
     (let t = dropWhile is_space ss in
      (takeWhile (\<lambda>c. \<not> is_space c) t, dropWhile (\<lambda>c. \<not> is_space c) t))"

fun find_first_not_of :: "string \<Rightarrow> string \<Rightarrow> nat option" where
  "find_first_not_of cs [] = None"
| "find_first_not_of cs (c # s) = (if c \<in> set cs then map_option Suc (find_first_not_of cs s) else Some 0)"

definition find_last_not_of :: "string \<Rightarrow> string \<Rightarrow> nat option" where
  "find_last_not_of cs s = map_option (\<lambda>i. length s - 1 - i) (find_first_not_of cs (rev s))"

section \<open>The parser\<close>

type_synonym config_data = "string \<rightharpoonup> string"

datatype config_error = PropertyNotFound string

definition parseLine :: "string \<Rightarrow> config_data \<Rightarrow> config_data" where
  "parseLine line configData =
     (if line = [] then configData
      else
        let (key, ss) = read_word line in
        if key = [] \<or> hd key = CHR ''#'' then configData
        else
          let (value, _) = read_word ss;
              value = (case find_first_not_of [CHR '' '', CHR 0x09] value of
                         None \<Rightarrow> value | Some first \<Rightarrow> drop first value);
              value = (case find_last_not_of [CHR '' '', CHR 0x09, CHR 0x0D, CHR 0x0A] value of
                         None \<Rightarrow> value | Some lst \<Rightarrow> take (lst + 1) value)
          in if value \<noteq> [] then configData(key \<mapsto> value) else configData)"

definition ConfigurationParser_load :: "string option \<Rightarrow> config_data \<Rightarrow> bool \<times> config_data" where
  "ConfigurationParser_load file configData =
     (case file of
        None \<Rightarrow> (False, configData)
      | Some content \<Rightarrow> (True, fold parseLine (getlines content) configData))"

definition ConfigurationParser_get :: "config_data \<Rightarrow> string \<Rightarrow> config_error + string" where
  "ConfigurationParser_get configData key =
     (case configData key of None \<Rightarrow> Inl (PropertyNotFound key) | Some v \<Rightarrow> Inr v)"

definition hasKey :: "config_data \<Rightarrow> string \<Rightarrow> bool" where
  "hasKey configData key = (configData key \<noteq> None)"

section \<open>Properties\<close>

text \<open>The words of a line.\<close>

function words_of :: "string \<Rightarrow> string list" where
  "words_of s = (case read_word s of (w, r) \<Rightarrow> if w = [] then [] else w # words_of r)"
  by pat_completeness auto

lemma read_word_split: "read_word s = (w, r) \<Longrightarrow> length w + length r \<le> length s"
proof -
  assume "read_word s = (w, r)"
  then have "w @ r = dropWhile is_space s" by (auto simp: read_word_def Let_def)
  then have "length w + length r = length (dropWhile is_space s)" by (metis length_append)
  then show ?thesis using length_dropWhile_le [of is_space s] by simp
qed

termination words_of
  by (relation "measure length") (auto simp: neq_Nil_conv dest!: read_word_split [OF sym])

declare words_of.simps [simp del]

lemma read_word_no_space: "read_word s = (w, r) \<Longrightarrow> c \<in> set w \<Longrightarrow> \<not> is_space c"
  by (auto simp: read_word_def Let_def dest: set_takeWhileD)

lemma trim_front:
  assumes "\<forall>c \<in> set v. \<not> is_space c" and "\<forall>c \<in> set cs. is_space c"
  shows "find_first_not_of cs v = (if v = [] then None else Some 0)"
  using assms by (cases v) auto

lemma trim_back:
  assumes "\<forall>c \<in> set v. \<not> is_space c" and "\<forall>c \<in> set cs. is_space c"
  shows "find_last_not_of cs v = (if v = [] then None else Some (length v - 1))"
  using trim_front [of "rev v" cs] assms by (simp add: find_last_not_of_def)

lemma parseLine_words:
  "parseLine line cfg =
     (case words_of line of
        key # value # _ \<Rightarrow> if hd key = CHR ''#'' then cfg else cfg(key \<mapsto> value)
      | _ \<Rightarrow> cfg)"
proof -
  obtain key ss where k: "read_word line = (key, ss)" by fastforce
  obtain v r where v: "read_word ss = (v, r)" by fastforce
  have ns: "\<forall>c \<in> set v. \<not> is_space c" using read_word_no_space [OF v] by blast
  have trim: "find_first_not_of [CHR '' '', CHR 0x09] v = (if v = [] then None else Some 0)"
    "find_last_not_of [CHR '' '', CHR 0x09, CHR 0x0D, CHR 0x0A] v = (if v = [] then None else Some (length v - 1))"
    by (rule trim_front trim_back, rule ns, simp add: blank_chars)+
  have w: "words_of line = (if key = [] then [] else key # (if v = [] then [] else v # words_of r))"
    using words_of.simps [of line] words_of.simps [of ss] by (simp add: k v)
  show ?thesis
  proof (cases "line = []")
    case True
    then have "key = []" using k by (simp add: read_word_def)
    then show ?thesis using True w by (simp add: parseLine_def)
  next
    case False
    then show ?thesis unfolding w using trim by (cases "v = []") (auto simp: parseLine_def k v Let_def)
  qed
qed

text \<open>The binding a line makes, if any, and the bindings of a file in their order.\<close>

definition binding_of :: "string \<Rightarrow> (string \<times> string) list" where
  "binding_of line =
     (case words_of line of
        key # value # _ \<Rightarrow> if hd key = CHR ''#'' then [] else [(key, value)]
      | _ \<Rightarrow> [])"

definition bindings :: "string \<Rightarrow> (string \<times> string) list" where
  "bindings content = concat (map binding_of (getlines content))"

lemma parseLine_binding: "parseLine line cfg = cfg ++ map_of (binding_of line)"
  by (simp add: parseLine_words binding_of_def split: list.splits)

lemma fold_parseLine: "fold parseLine ls cfg = cfg ++ map_of (rev (concat (map binding_of ls)))"
proof (induction ls arbitrary: cfg)
  case (Cons l ls)
  have "map_of (rev (binding_of l)) = map_of (binding_of l)"
    by (simp add: binding_of_def split: list.splits)
  with Cons show ?case by (simp add: parseLine_binding)
qed simp

text \<open>
  C23: loading a file adds the bindings of its lines, later ones replacing earlier ones. A line
  makes a binding exactly if it has at least two words and does not start with a hash sign,
  namely of its first word to its second; the rest of the line is ignored. Keys can be
  looked up exactly if they are bound, and all others raise the error. A file that cannot be
  opened changes nothing.
\<close>

theorem ConfigurationParser_load_effect:
  "ConfigurationParser_load None cfg = (False, cfg) \<and>
   (\<exists>cfg'. ConfigurationParser_load (Some content) cfg = (True, cfg') \<and>
      (\<forall>key. ConfigurationParser_get cfg' key =
         (case map_of (rev (bindings content)) key of
            Some v \<Rightarrow> Inr v
          | None \<Rightarrow> ConfigurationParser_get cfg key)) \<and>
      (\<forall>key. hasKey cfg' key = (\<exists>v. ConfigurationParser_get cfg' key = Inr v)))"
  by (auto simp: ConfigurationParser_load_def fold_parseLine bindings_def ConfigurationParser_get_def hasKey_def
      map_add_def split: option.splits)

section \<open>Round trip\<close>

text \<open>A configuration file with one binding per line.\<close>

definition config_file :: "(string \<times> string) list \<Rightarrow> string" where
  "config_file kvs = concat (map (\<lambda>(k, v). k @ [CHR '' ''] @ v @ [CHR 0x0A]) kvs)"

definition is_word :: "string \<Rightarrow> bool" where
  "is_word w \<longleftrightarrow> w \<noteq> [] \<and> list_all (\<lambda>c. \<not> is_space c) w"

lemma getlines_line:
  assumes "CHR 0x0A \<notin> set l"
  shows "getlines (l @ CHR 0x0A # cs) = l # getlines cs"
proof -
  have "takeWhile (\<lambda>c. c \<noteq> CHR 0x0A) (l @ CHR 0x0A # cs) = l" "dropWhile (\<lambda>c. c \<noteq> CHR 0x0A) (l @ CHR 0x0A # cs) = CHR 0x0A # cs"
    using assms by (induction l) auto
  then show ?thesis by (subst getlines.simps) simp
qed

lemma read_word_word:
  assumes "is_word w" and "rest = [] \<or> is_space (hd rest)"
  shows "read_word (w @ rest) = (w, rest)"
proof -
  have ns: "\<forall>c \<in> set w. \<not> is_space c" and ne: "w \<noteq> []" using assms(1) by (auto simp: is_word_def list_all_iff)
  then have "dropWhile is_space (w @ rest) = w @ rest" by (cases w) auto
  moreover have "takeWhile (\<lambda>c. \<not> is_space c) (w @ rest) = w" "dropWhile (\<lambda>c. \<not> is_space c) (w @ rest) = rest"
    using ns assms(2) by (cases rest; auto simp: takeWhile_append2 dropWhile_append2)+
  ultimately show ?thesis by (simp add: read_word_def Let_def)
qed

lemma read_word_blank: "is_space c \<Longrightarrow> read_word (c # s) = read_word s"
  by (simp add: read_word_def)

lemma words_of_pair:
  assumes "is_word k" and "is_word v"
  shows "words_of (k @ CHR '' '' # v) = [k, v]"
proof -
  have "read_word (k @ CHR '' '' # v) = (k, CHR '' '' # v)" "read_word (CHR '' '' # v) = (v, [])"
    using read_word_word [OF assms(1), of "CHR '' '' # v"] read_word_word [OF assms(2), of "[]"]
    by (simp_all add: blank_chars read_word_blank)
  moreover have "words_of [] = []" by (subst words_of.simps) (simp add: read_word_def)
  ultimately show ?thesis using assms words_of.simps [of "k @ CHR '' '' # v"] words_of.simps [of "CHR '' '' # v"]
    by (simp add: is_word_def)
qed

lemma bindings_config_file:
  assumes "\<forall>(k, v) \<in> set kvs. is_word k \<and> is_word v \<and> hd k \<noteq> CHR ''#''"
  shows "bindings (config_file kvs) = kvs"
  using assms
proof (induction kvs)
  case Nil
  then show ?case by (simp add: bindings_def config_file_def getlines.simps)
next
  case (Cons kv kvs)
  obtain k v where kv: "kv = (k, v)" by (cases kv)
  with Cons.prems have w: "is_word k" "is_word v" "hd k \<noteq> CHR ''#''" by auto
  then have "CHR 0x0A \<notin> set (k @ CHR '' '' # v)"
    using blank_chars(4) by (auto simp: is_word_def list_all_iff)
  from getlines_line [OF this, of "config_file kvs"] w Cons kv show ?case
    by (simp add: bindings_def config_file_def binding_of_def words_of_pair)
qed

text \<open>
  C25: a configuration written one binding per line, with keys and values that are single
  words, is read back: each key has the value of its last line.
\<close>

theorem ConfigurationParser_roundtrip:
  assumes "\<forall>(k, v) \<in> set kvs. is_word k \<and> is_word v \<and> hd k \<noteq> CHR ''#''"
  shows "ConfigurationParser_load (Some (config_file kvs)) Map.empty = (True, map_of (rev kvs))"
  using bindings_config_file [OF assms] by (simp add: ConfigurationParser_load_def fold_parseLine bindings_def)

theorem ConfigurationParser_roundtrip_witness:
  "ConfigurationParser_load (Some (config_file [(''port'', ''1''), (''host'', ''h''), (''port'', ''2705'')])) Map.empty =
     (True, map_of [(''port'', ''2705''), (''host'', ''h''), (''port'', ''1'')])"
  by (subst ConfigurationParser_roundtrip) (simp_all add: is_word_def is_space_def)

end
