(* ===== verification/Auxiliary.thy ===== *)
theory Auxiliary
  imports NHA_Prelude
begin

text \<open>
  \<open>src/src/auxiliary.h\<close>: the overflow-checked addition \<open>try_add_unsigned\<close>, a template
  over two unsigned types. The reference parameter \<open>value\<close> is returned beside the
  boolean result.
\<close>

definition try_add_unsigned :: "'t::len word \<Rightarrow> 'u::len word \<Rightarrow> 't word \<Rightarrow> bool \<times> 't word" where
  "try_add_unsigned value increment max_value =
     (let addend = ucast increment :: 't word in
      if addend > max_value then (False, value)
      else if value > max_value - addend then (False, value)
      else (True, value + addend))"

text \<open>
  The template asserts \<open>sizeof(U) <= sizeof(T)\<close>, so the cast of the increment keeps its value.
\<close>

lemma try_add_unsigned_spec:
  fixes v :: "'t::len word" and inc :: "'u::len word"
  assumes "LENGTH('u) \<le> LENGTH('t)"
  shows "try_add_unsigned v inc mx =
    (if unat v + unat inc \<le> unat mx then (True, v + ucast inc) else (False, v))"
proof -
  have "unat (ucast inc :: 't word) = unat inc"
    using assms by (simp add: unat_ucast_up)
  then show ?thesis
    by (auto simp: try_add_unsigned_def Let_def word_less_nat_alt unat_sub word_le_nat_alt not_less)
qed

text \<open>A successful addition is exact: there is no wrap-around.\<close>

lemma try_add_unsigned_exact:
  fixes v :: "'t::len word" and inc :: "'u::len word"
  assumes "LENGTH('u) \<le> LENGTH('t)" and "try_add_unsigned v inc mx = (True, v')"
  shows "unat v' = unat v + unat inc \<and> v' \<le> mx"
proof -
  have u: "unat (ucast inc :: 't word) = unat inc"
    using assms(1) by (simp add: unat_ucast_up)
  from assms have le: "unat v + unat inc \<le> unat mx" and v': "v' = v + ucast inc"
    by (auto simp: try_add_unsigned_spec split: if_splits)
  then have "unat v' = unat v + unat inc"
    by (simp add: unat_word_ariths u mod_less [OF le_less_trans [OF le unsigned_less]])
  with le show ?thesis by (simp add: word_le_nat_alt)
qed

end
