(* ===== verification/Double.thy ===== *)
theory Double
  imports Complex_Main NHA_Prelude
begin

text \<open>
  The type \<open>double\<close> of the sources: IEEE 754 binary64 with round-to-nearest, ties to even,
  as the C++ implementation on x86-64 has it. A finite double is its exact rational value;
  rounding (\<open>round_double\<close>) covers the normal and the subnormal range and overflow to
  infinity. The sign of a zero is not kept, because no operation of the sources observes it.
\<close>

section \<open>Rounding\<close>

fun log2_nat :: "nat \<Rightarrow> nat" where
  "log2_nat n = (if n < 2 then 0 else Suc (log2_nat (n div 2)))"

declare log2_nat.simps [simp del]

lemma log2_nat_bounds: "0 < n \<Longrightarrow> 2 ^ log2_nat n \<le> n \<and> n < 2 ^ Suc (log2_nat n)"
proof (induction n rule: log2_nat.induct)
  case (1 n)
  show ?case
  proof (cases "n < 2")
    case True
    with 1 show ?thesis by (simp add: log2_nat.simps [of n])
  next
    case False
    then have "0 < n div 2" by simp
    with False 1 have "2 ^ log2_nat (n div 2) \<le> n div 2" "n div 2 < 2 ^ Suc (log2_nat (n div 2))"
      by auto
    with False show ?thesis
      by (simp add: log2_nat.simps [of n]) linarith
  qed
qed

text \<open>The exponent of the binade of a positive rational.\<close>

definition binade :: "rat \<Rightarrow> int" where
  "binade x = (let (n, d) = quotient_of x; e = int (log2_nat (nat n)) - int (log2_nat (nat d))
               in if 2 powi e \<le> x then e else e - 1)"

lemma log2_nat_powi:
  assumes "0 < n"
  shows "2 powi int (log2_nat n) \<le> (of_nat n :: rat)"
    and "(of_nat n :: rat) < 2 powi (int (log2_nat n) + 1)"
proof -
  have "(of_nat (2 ^ log2_nat n) :: rat) \<le> of_nat n" "(of_nat n :: rat) < of_nat (2 ^ Suc (log2_nat n))"
    using log2_nat_bounds [OF assms] by (simp_all only: of_nat_le_iff of_nat_less_iff)
  then show "2 powi int (log2_nat n) \<le> (of_nat n :: rat)"
    and "(of_nat n :: rat) < 2 powi (int (log2_nat n) + 1)"
    by (simp_all add: power_int_add_1)
qed

lemma binade_bounds:
  assumes "0 < x"
  shows "2 powi (binade x) \<le> x \<and> x < 2 powi (binade x + 1)"
proof -
  obtain n d where q: "quotient_of x = (n, d)" by (cases "quotient_of x")
  have d: "0 < d" and x: "x = of_int n / of_int d"
    using q by (auto dest: quotient_of_denom_pos quotient_of_div)
  then have n: "0 < n" using assms by (simp add: zero_less_divide_iff)
  define a b where "a = int (log2_nat (nat n))" and "b = int (log2_nat (nat d))"
  have N: "2 powi a \<le> (of_int n :: rat)" "(of_int n :: rat) < 2 powi (a + 1)"
    using log2_nat_powi [of "nat n"] n by (simp_all add: a_def)
  have D: "2 powi b \<le> (of_int d :: rat)" "(of_int d :: rat) < 2 powi (b + 1)"
    using log2_nat_powi [of "nat d"] d by (simp_all add: b_def)
  have up: "x < 2 powi (a - b + 1)"
  proof -
    have "x < 2 powi (a + 1) / 2 powi b"
      unfolding x using N D n d by (intro frac_less) simp_all
    then show ?thesis by (simp add: power_int_diff algebra_simps flip: power_int_add)
  qed
  have lo: "2 powi (a - b - 1) < x"
  proof -
    have "2 powi a / 2 powi (b + 1) < x"
      unfolding x using N D n d by (intro frac_less2) simp_all
    then show ?thesis by (simp add: algebra_simps flip: power_int_diff)
  qed
  show ?thesis
    using up lo by (auto simp: binade_def q a_def b_def Let_def)
qed

definition round_half_even :: "rat \<Rightarrow> int" where
  "round_half_even x =
     (let f = \<lfloor>x\<rfloor>; r = x - of_int f in
      if r < 1/2 then f else if r > 1/2 then f + 1 else if even f then f else f + 1)"

lemma round_half_even_error: "\<bar>of_int (round_half_even x) - x\<bar> \<le> 1/2"
proof -
  have "0 \<le> x - of_int \<lfloor>x\<rfloor>" "x - of_int \<lfloor>x\<rfloor> < 1" by linarith+
  then show ?thesis by (auto simp: round_half_even_def Let_def)
qed

lemma round_half_even_of_int [simp]: "round_half_even (of_int n) = n"
  by (simp add: round_half_even_def)

definition round_double :: "rat \<Rightarrow> rat" where
  "round_double x =
     (if x = 0 then 0
      else let q = 2 powi (max (binade \<bar>x\<bar> - 52) (- 1074)) in of_int (round_half_even (x / q)) * q)"

text \<open>The error is at most half a unit of the quantum the value is rounded to.\<close>

lemma round_double_quantum:
  assumes "x \<noteq> 0" and "max (binade \<bar>x\<bar> - 52) (- 1074) = j"
  shows "\<bar>round_double x - x\<bar> \<le> 2 powi j / 2"
proof -
  define q :: rat where "q = 2 powi j"
  have q: "0 < q" by (simp add: q_def)
  have "\<bar>round_double x - x\<bar> = \<bar>of_int (round_half_even (x / q)) - x / q\<bar> * q"
    using assms q by (simp add: round_double_def q_def [symmetric] Let_def
        abs_mult_pos [symmetric] field_simps)
  also have "\<dots> \<le> 1/2 * q"
    using q by (intro mult_right_mono round_half_even_error) simp
  finally show ?thesis by (simp add: q_def)
qed

lemma powi_2_less_imp: "(2 :: rat) powi a < 2 powi b \<Longrightarrow> a < b"
  using power_int_increasing [of b a "2 :: rat"] by (force simp: not_less [symmetric])

text \<open>In the normal range the error is relative.\<close>

lemma round_double_error:
  assumes "2 powi (- 1022) \<le> \<bar>x\<bar>"
  shows "\<bar>round_double x - x\<bar> \<le> \<bar>x\<bar> / 2 ^ 53"
proof -
  have pos: "0 < \<bar>x\<bar>" using less_le_trans [OF _ assms, of 0] by simp
  define e where "e = binade \<bar>x\<bar>"
  have e: "2 powi e \<le> \<bar>x\<bar>" "\<bar>x\<bar> < 2 powi (e + 1)"
    using binade_bounds [OF pos] by (simp_all add: e_def)
  have "- 1022 < e + 1"
    using le_less_trans [OF assms e(2)] by (rule powi_2_less_imp)
  then have "max (binade \<bar>x\<bar> - 52) (- 1074) = e - 52" by (simp add: e_def)
  then have "\<bar>round_double x - x\<bar> \<le> 2 powi (e - 52) / 2"
    using pos by (intro round_double_quantum) simp_all
  also have "\<dots> = 2 powi e / 2 ^ 53"
    by (simp add: power_int_diff)
  also have "\<dots> \<le> \<bar>x\<bar> / 2 ^ 53" using e(1) by (simp add: divide_right_mono)
  finally show ?thesis .
qed

text \<open>In the subnormal range the error is below an absolute bound instead.\<close>

lemma round_double_error_any: "\<bar>round_double x - x\<bar> \<le> \<bar>x\<bar> / 2 ^ 53 + 1 / 2 ^ 1000"
proof (cases "2 powi (- 1022) \<le> \<bar>x\<bar> \<or> x = 0")
  case True
  then show ?thesis
    by (elim disjE) (rule order_trans [OF round_double_error], assumption, simp, simp add: round_double_def)
next
  case False
  then have "2 powi (binade \<bar>x\<bar>) \<le> \<bar>x\<bar>" using binade_bounds [of "\<bar>x\<bar>"] by simp
  with False have "(2 :: rat) powi (binade \<bar>x\<bar>) < 2 powi (- 1022)" by linarith
  then have "binade \<bar>x\<bar> < - 1022" by (rule powi_2_less_imp)
  then have mx: "max (binade \<bar>x\<bar> - 52) (- 1074) = - 1074" by simp
  have "\<bar>round_double x - x\<bar> \<le> 2 powi (- 1074) / 2"
    using False mx by (intro round_double_quantum) simp_all
  also have "\<dots> \<le> 2 powi (- 1000)" by simp
  also have "\<dots> \<le> \<bar>x\<bar> / 2 ^ 53 + 1 / 2 ^ 1000" by (simp add: power_int_minus_divide)
  finally show ?thesis .
qed

text \<open>A significand of at most 53 bits is kept exactly.\<close>

lemma round_double_exact:
  assumes "x = of_int m * 2 powi k" and "\<bar>m\<bar> < 2 ^ 53" and "- 1074 \<le> k"
  shows "round_double x = x"
proof (cases "x = 0")
  case False
  define e where "e = binade \<bar>x\<bar>"
  define j where "j = max (e - 52) (- 1074)"
  have e: "2 powi e \<le> \<bar>x\<bar>"
    using binade_bounds [of "\<bar>x\<bar>"] False by (simp add: e_def)
  have "\<bar>x\<bar> < 2 powi (53 + k)"
  proof -
    have "(of_int \<bar>m\<bar> :: rat) < of_int (2 ^ 53)" using assms(2) by (simp only: of_int_less_iff)
    then show ?thesis by (simp add: assms(1) abs_mult power_int_add)
  qed
  with e have "(2 :: rat) powi e < 2 powi (53 + k)" by (rule le_less_trans)
  then have "e < 53 + k" by (rule powi_2_less_imp)
  with assms(3) have "j \<le> k" by (simp add: j_def)
  then obtain i where i: "k = j + int i" by (metis zle_iff_zadd)
  have "x / 2 powi j = of_int (m * 2 ^ i)"
    by (simp add: assms(1) i power_int_add)
  then have "of_int (round_half_even (x / 2 powi j)) * 2 powi j = x"
    by (metis nonzero_divide_eq_eq power_int_eq_0_iff round_half_even_of_int zero_neq_numeral)
  with False show ?thesis
    by (simp add: round_double_def e_def [symmetric] j_def [symmetric])
qed (simp add: round_double_def)

lemma round_double_of_int [simp]: "\<bar>n\<bar> < 2 ^ 53 \<Longrightarrow> round_double (of_int n) = of_int n"
  by (rule round_double_exact [of _ n 0]) simp_all

lemma round_double_pow2: "round_double (2 ^ n) = 2 ^ n"
  by (rule round_double_exact [of _ 1 "int n"]) simp_all

lemma round_double_sign: "0 \<le> x \<Longrightarrow> 0 \<le> round_double x"
proof -
  have "0 \<le> round_half_even y" if "0 \<le> y" for y
    using that by (auto simp: round_half_even_def Let_def)
  then show "0 \<le> x \<Longrightarrow> 0 \<le> round_double x"
    by (simp add: round_double_def Let_def)
qed

section \<open>The type and its operations\<close>

text \<open>
  Only the configured threshold can be infinite or not a number (\<open>std::stod\<close> accepts such
  texts). All arithmetic of the sources is on finite doubles whose magnitudes are between
  \<open>2\<^sup>-\<^sup>3\<^sup>2\<close> and \<open>2\<^sup>1\<^sup>0\<^sup>0\<close> or zero, far from overflow, so its operands and results are kept as
  their rational values.
\<close>

datatype double = Fin rat | Infinite bool \<comment> \<open>True: negative\<close> | NaN

definition dmul :: "rat \<Rightarrow> rat \<Rightarrow> rat" where
  "dmul x y = round_double (x * y)"

definition ddiv :: "rat \<Rightarrow> rat \<Rightarrow> rat" where
  "ddiv x y = round_double (x / y)"

definition dsub :: "rat \<Rightarrow> rat \<Rightarrow> rat" where
  "dsub x y = round_double (x - y)"

text \<open>\<open>x >= t\<close> for a finite \<open>x\<close>: every comparison with NaN is false.\<close>

fun dge :: "rat \<Rightarrow> double \<Rightarrow> bool" where
  "dge x (Fin t) = (t \<le> x)"
| "dge x (Infinite neg) = neg"
| "dge x NaN = False"

text \<open>\<open>static_cast<double>\<close> of an unsigned integer.\<close>

definition double_of_word :: "'a::len word \<Rightarrow> rat" where
  "double_of_word w = round_double (of_nat (unat w))"

text \<open>Conversion to \<open>uint64_t\<close> truncates; out of range it is undefined.\<close>

definition u64_of_double :: "rat \<Rightarrow> u64 option" where
  "u64_of_double x =
     (if - 1 < x \<and> x < 2 ^ 64 then Some (of_nat (nat \<lfloor>x\<rfloor>)) else None)"

lemma double_of_word_small:
  assumes "unat w < 2 ^ 53"
  shows "double_of_word w = of_nat (unat w)"
proof -
  have "int (unat w) < int (2 ^ 53)" using assms by (simp only: of_nat_less_iff)
  then show ?thesis
    using round_double_of_int [of "int (unat w)"] by (simp add: double_of_word_def)
qed

lemma double_of_u32: "double_of_word (w :: u32) = of_nat (unat w)"
proof (rule double_of_word_small)
  have "unat w < 2 ^ 32" using unsigned_less [of w] by simp
  then show "unat w < 2 ^ 53" by simp
qed

lemma u64_of_double_floor:
  assumes "0 \<le> x" and "x < 2 ^ 64"
  shows "\<exists>w. u64_of_double x = Some w \<and> of_nat (unat w) \<le> x \<and> x < of_nat (unat w) + 1"
proof -
  have "\<lfloor>x\<rfloor> < 2 ^ 64" using assms(2) by (simp add: floor_less_iff)
  with assms(1) have "unat (of_nat (nat \<lfloor>x\<rfloor>) :: u64) = nat \<lfloor>x\<rfloor>"
    by (simp only: unsigned_of_nat) (simp add: take_bit_nat_eq_self_iff nat_less_iff)
  moreover have "(of_nat (nat \<lfloor>x\<rfloor>) :: rat) = of_int \<lfloor>x\<rfloor>" using assms(1) by simp
  ultimately show ?thesis
    using assms floor_correct [of x] by (auto simp: u64_of_double_def simp del: of_nat_unat of_nat_nat)
qed

section \<open>Error accumulation\<close>

text \<open>
  \<open>close e x y\<close>: the computed value \<open>y\<close> is within relative error \<open>e\<close> of the non-negative exact
  value \<open>x\<close>. Products, quotients and roundings add up errors.
\<close>

definition close :: "rat \<Rightarrow> rat \<Rightarrow> rat \<Rightarrow> bool" where
  "close e x y \<longleftrightarrow> 0 \<le> x \<and> \<bar>y - x\<bar> \<le> e * x"

lemma close_refl: "0 \<le> x \<Longrightarrow> 0 \<le> e \<Longrightarrow> close e x x"
  by (simp add: close_def)

lemma close_weaken: "close e x y \<Longrightarrow> e \<le> e' \<Longrightarrow> close e' x y"
  by (auto simp: close_def intro: order_trans [OF _ mult_right_mono])

lemma close_bounds: "close e x y \<Longrightarrow> (1 - e) * x \<le> y \<and> y \<le> (1 + e) * x"
  by (auto simp: close_def algebra_simps abs_le_iff)

lemma close_trans:
  assumes "close e x y" and "close d y z" and "0 \<le> d"
  shows "close (e + d + d * e) x z"
proof -
  have "\<bar>z - x\<bar> \<le> \<bar>z - y\<bar> + \<bar>y - x\<bar>" by linarith
  also have "\<dots> \<le> d * ((1 + e) * x) + e * x"
    using assms close_bounds [OF assms(1)]
    by (intro add_mono) (auto simp: close_def intro: order_trans [OF _ mult_left_mono])
  finally show ?thesis using assms(1) by (simp add: close_def algebra_simps)
qed

lemma close_mult_left: "close e x y \<Longrightarrow> 0 \<le> c \<Longrightarrow> close e (c * x) (c * y)"
  by (simp add: close_def abs_mult flip: right_diff_distrib) (metis mult.left_commute mult_left_mono)

lemma close_divide:
  assumes "close e x y" and "0 \<le> e" and "e \<le> 1/2" and "0 < x" and "0 \<le> c"
  shows "close (2 * e) (c / x) (c / y)"
proof -
  have "(1 - e) * x \<le> y" using close_bounds [OF assms(1)] by blast
  moreover have "x / 2 \<le> (1 - e) * x"
    using mult_right_mono [of "1/2" "1 - e" x] assms(3,4) by simp
  ultimately have y: "x / 2 \<le> y" and "0 < y" using assms(4) by linarith+
  have "\<bar>c / y - c / x\<bar> = c * \<bar>y - x\<bar> / (x * y)"
    using \<open>0 < y\<close> assms(4,5) by (simp add: abs_mult abs_divide field_simps flip: abs_mult)
      (simp add: abs_mult abs_minus_commute flip: right_diff_distrib)
  also have "\<dots> \<le> c * (e * x) / (x * (x / 2))"
    using assms y \<open>0 < y\<close> by (intro frac_le mult_left_mono) (auto simp: close_def)
  also have "\<dots> = 2 * e * (c / x)" using assms(4) by (simp add: field_simps)
  finally show ?thesis using assms(4,5) by (simp add: close_def)
qed

text \<open>All magnitudes of the sources are above \<open>2\<^sup>-\<^sup>1\<^sup>0\<^sup>0\<close>, far above the subnormal range.\<close>

lemma normal_magnitude: "1 / 2 ^ 100 \<le> \<bar>x\<bar> \<Longrightarrow> 2 powi (- 1022) \<le> \<bar>x\<bar>" for x :: rat
proof -
  have "(2 :: rat) powi (- 1022) \<le> 2 powi (- 100)" by (intro power_int_increasing) simp_all
  then show "1 / 2 ^ 100 \<le> \<bar>x\<bar> \<Longrightarrow> 2 powi (- 1022) \<le> \<bar>x\<bar>" by (simp add: power_int_minus_divide)
qed

lemma close_round: "1 / 2 ^ 100 \<le> x \<Longrightarrow> close (1 / 2 ^ 53) x (round_double x)"
  using round_double_error [of x] normal_magnitude [of x]
  by (simp add: close_def abs_of_nonneg order_trans [of 0 "1 / 2 ^ 100" x])

end
