(* ===== verification/Timer.thy ===== *)
theory Timer
  imports NHA_Prelude
begin

text \<open>
  \<open>src/src/timer.cpp\<close>: the periodic timer. The object is shared by two threads, the owner
  that calls \<open>start\<close> and \<open>stop\<close> and the worker that \<open>start\<close> spawns, so its operations are
  steps of a transition system: one rule per atomic action of one thread, with the mutex,
  the condition variable and \<open>std::thread::join\<close> as the guards of the rules.

  \<open>condition_variable::wait_for(lock, interval, stopped)\<close> is the loop the C++ standard
  gives for it: test the predicate under the lock; if it fails, release the lock and block;
  after a notification or a spurious wake-up lock and test again; after a time-out lock,
  test once more and return the result of that test. Where a rule does more than one action, the
  mutex is held up to the last one. The callback is never empty, as both users bind one.
\<close>

section \<open>State\<close>

datatype worker_pc =
    NoThread            \<comment> \<open>the \<open>std::thread\<close> member is not joinable\<close>
  | Locking             \<comment> \<open>before \<open>unique_lock(mutex)\<close> or \<open>uniqueLock.lock()\<close>\<close>
  | Testing             \<comment> \<open>in \<open>wait_for\<close>, mutex held, about to test \<open>stopped()\<close>\<close>
  | Blocked             \<comment> \<open>in \<open>wait_for\<close>, mutex released\<close>
  | Relocking bool      \<comment> \<open>woken in \<open>wait_for\<close>; the flag says whether by time-out\<close>
  | TestingTimedOut     \<comment> \<open>in \<open>wait_for\<close> after the time-out, mutex held\<close>
  | TimedOut            \<comment> \<open>\<open>wait_for\<close> has returned \<open>false\<close>, mutex held, before \<open>uniqueLock.unlock()\<close>\<close>
  | Unlocked            \<comment> \<open>mutex released, before the call of \<open>callback()\<close>\<close>
  | Calling             \<comment> \<open>mutex released, in \<open>callback()\<close>\<close>
  | Finished            \<comment> \<open>the thread function has returned, not joined yet\<close>

datatype owner_pc =
    Idle
  | StopLocking         \<comment> \<open>in \<open>stop\<close>, before \<open>lock_guard\<close>\<close>
  | StopLocked          \<comment> \<open>in \<open>stop\<close>, mutex held\<close>
  | StopNotifying       \<comment> \<open>in \<open>stop\<close>, before \<open>notify_one\<close>\<close>
  | StopJoining         \<comment> \<open>in \<open>stop\<close>, at \<open>joinable()\<close> and \<open>join()\<close>\<close>

datatype thread_id = Owner | Worker

text \<open>
  \<open>timeouts\<close> and \<open>calls\<close> are history variables: how many waits have ended by time-out,
  and how many times the callback has been entered.
\<close>

record timer =
  running :: bool
  mutex :: "thread_id option"
  worker :: worker_pc
  owner :: owner_pc
  timeouts :: nat
  calls :: nat

definition Timer_init :: timer where
  "Timer_init = \<lparr>running = True, mutex = None, worker = NoThread, owner = Idle, timeouts = 0, calls = 0\<rparr>"

text \<open>
  \<open>Timer::start\<close> assigns a new thread to the member. Assigning to a joinable
  \<open>std::thread\<close> calls \<open>std::terminate\<close>: \<open>None\<close>.
\<close>

definition Timer_start :: "timer \<Rightarrow> timer option" where
  "Timer_start t = (if worker t = NoThread then Some (t\<lparr>worker := Locking\<rparr>) else None)"

section \<open>Steps\<close>

inductive worker_step :: "timer \<Rightarrow> timer \<Rightarrow> bool" where
  acquire: "worker t = Locking \<Longrightarrow> mutex t = None \<Longrightarrow>
    worker_step t (t\<lparr>worker := Testing, mutex := Some Worker\<rparr>)"
| test_stopped: "worker t = Testing \<Longrightarrow> \<not> running t \<Longrightarrow>
    worker_step t (t\<lparr>worker := Finished, mutex := None\<rparr>)"
| test_block: "worker t = Testing \<Longrightarrow> running t \<Longrightarrow>
    worker_step t (t\<lparr>worker := Blocked, mutex := None\<rparr>)"
| wake_spurious: "worker t = Blocked \<Longrightarrow>
    worker_step t (t\<lparr>worker := Relocking False\<rparr>)"
| wake_timeout: "worker t = Blocked \<Longrightarrow>
    worker_step t (t\<lparr>worker := Relocking True, timeouts := Suc (timeouts t)\<rparr>)"
| reacquire: "worker t = Relocking False \<Longrightarrow> mutex t = None \<Longrightarrow>
    worker_step t (t\<lparr>worker := Testing, mutex := Some Worker\<rparr>)"
| reacquire_timeout: "worker t = Relocking True \<Longrightarrow> mutex t = None \<Longrightarrow>
    worker_step t (t\<lparr>worker := TestingTimedOut, mutex := Some Worker\<rparr>)"
| timeout_stopped: "worker t = TestingTimedOut \<Longrightarrow> \<not> running t \<Longrightarrow>
    worker_step t (t\<lparr>worker := Finished, mutex := None\<rparr>)"
| timeout_running: "worker t = TestingTimedOut \<Longrightarrow> running t \<Longrightarrow>
    worker_step t (t\<lparr>worker := TimedOut\<rparr>)"
| unlock: "worker t = TimedOut \<Longrightarrow>
    worker_step t (t\<lparr>worker := Unlocked, mutex := None\<rparr>)"
| callback: "worker t = Unlocked \<Longrightarrow>
    worker_step t (t\<lparr>worker := Calling, calls := Suc (calls t)\<rparr>)"
| callback_done: "worker t = Calling \<Longrightarrow>
    worker_step t (t\<lparr>worker := Locking\<rparr>)"

inductive owner_step :: "timer \<Rightarrow> timer \<Rightarrow> bool" where
  start: "owner t = Idle \<Longrightarrow> Timer_start t = Some t' \<Longrightarrow> owner_step t t'"
| stop_call: "owner t = Idle \<Longrightarrow> owner_step t (t\<lparr>owner := StopLocking\<rparr>)"
| stop_lock: "owner t = StopLocking \<Longrightarrow> mutex t = None \<Longrightarrow>
    owner_step t (t\<lparr>owner := StopLocked, mutex := Some Owner\<rparr>)"
| stop_write: "owner t = StopLocked \<Longrightarrow>
    owner_step t (t\<lparr>owner := StopNotifying, running := False, mutex := None\<rparr>)"
| stop_notify: "owner t = StopNotifying \<Longrightarrow>
    owner_step t (t\<lparr>owner := StopJoining,
      worker := (if worker t = Blocked then Relocking False else worker t)\<rparr>)"
| stop_not_joinable: "owner t = StopJoining \<Longrightarrow> worker t = NoThread \<Longrightarrow>
    owner_step t (t\<lparr>owner := Idle\<rparr>)"
| stop_join: "owner t = StopJoining \<Longrightarrow> worker t = Finished \<Longrightarrow>
    owner_step t (t\<lparr>owner := Idle, worker := NoThread\<rparr>)"

inductive timer_reachable :: "timer \<Rightarrow> bool" where
  init: "timer_reachable Timer_init"
| by_worker: "timer_reachable t \<Longrightarrow> worker_step t t' \<Longrightarrow> timer_reachable t'"
| by_owner: "timer_reachable t \<Longrightarrow> owner_step t t' \<Longrightarrow> timer_reachable t'"

inductive_cases worker_stepE: "worker_step t t'"
inductive_cases owner_stepE: "owner_step t t'"

section \<open>Invariant\<close>

fun worker_holds :: "worker_pc \<Rightarrow> bool" where
  "worker_holds Testing = True"
| "worker_holds TestingTimedOut = True"
| "worker_holds TimedOut = True"
| "worker_holds _ = False"

text \<open>
  Who holds the mutex; once \<open>stop\<close> has stored \<open>false\<close> it stays, and a worker that
  blocks afterwards has still to be notified; a worker that has seen \<open>running\<close> keeps the mutex
  until it unlocks it, so that \<open>stop\<close> cannot store in between; and the accounting of time-outs against calls.
\<close>

fun pending_timeout :: "worker_pc \<Rightarrow> nat" where
  "pending_timeout (Relocking timedOut) = (if timedOut then 1 else 0)"
| "pending_timeout TestingTimedOut = 1"
| "pending_timeout TimedOut = 1"
| "pending_timeout Unlocked = 1"
| "pending_timeout _ = 0"

definition timer_inv :: "timer \<Rightarrow> bool" where
  "timer_inv t \<longleftrightarrow>
     (mutex t = Some Worker \<longleftrightarrow> worker_holds (worker t)) \<and>
     (mutex t = Some Owner \<longleftrightarrow> owner t = StopLocked) \<and>
     \<not> (running t \<and> (owner t = StopNotifying \<or> owner t = StopJoining)) \<and>
     \<not> (worker t = Blocked \<and> \<not> running t \<and> owner t \<noteq> StopNotifying) \<and>
     \<not> (worker t = TimedOut \<and> \<not> running t) \<and>
     calls t + pending_timeout (worker t) \<le> timeouts t"

lemma timer_inv_init: "timer_inv Timer_init"
  by (simp add: timer_inv_def Timer_init_def)

lemma timer_inv_worker: "timer_inv t \<Longrightarrow> worker_step t t' \<Longrightarrow> timer_inv t'"
  by (erule worker_stepE) (auto simp: timer_inv_def)

lemma timer_inv_owner: "timer_inv t \<Longrightarrow> owner_step t t' \<Longrightarrow> timer_inv t'"
  by (erule owner_stepE) (auto simp: timer_inv_def Timer_start_def split: if_splits)

lemma timer_reachable_inv: "timer_reachable t \<Longrightarrow> timer_inv t"
  by (induction rule: timer_reachable.induct)
    (auto intro: timer_inv_init timer_inv_worker timer_inv_owner)

section \<open>Periods\<close>

text \<open>
  A whole period of the worker between two times at which it is about to lock the mutex: the
  wait ends by time-out and the callback runs to its end.
\<close>

definition worker_period :: "timer \<Rightarrow> timer" where
  "worker_period t = t\<lparr>timeouts := Suc (timeouts t), calls := Suc (calls t)\<rparr>"

definition between_periods :: "timer \<Rightarrow> bool" where
  "between_periods t \<longleftrightarrow> worker t = Locking \<and> mutex t = None \<and> running t \<and> timer_reachable t"

lemma worker_period_steps:
  assumes "worker t = Locking" and "mutex t = None" and "running t"
  shows "worker_step\<^sup>*\<^sup>* t (worker_period t)"
proof -
  let ?s = "\<lambda>pc m o' c. \<lparr>running = True, mutex = m, worker = pc, owner = owner t, timeouts = o', calls = c\<rparr>"
  have s: "worker_step (?s Locking None n c) (?s Testing (Some Worker) n c)"
    "worker_step (?s Testing (Some Worker) n c) (?s Blocked None n c)"
    "worker_step (?s Blocked None n c) (?s (Relocking True) None (Suc n) c)"
    "worker_step (?s (Relocking True) None n c) (?s TestingTimedOut (Some Worker) n c)"
    "worker_step (?s TestingTimedOut (Some Worker) n c) (?s TimedOut (Some Worker) n c)"
    "worker_step (?s TimedOut (Some Worker) n c) (?s Unlocked None n c)"
    "worker_step (?s Unlocked None n c) (?s Calling None n (Suc c))"
    "worker_step (?s Calling None n c) (?s Locking None n c)" for n c
    by (simp_all add: worker_step.simps)
  have "worker_step\<^sup>*\<^sup>* (?s Locking None n c) (?s Locking None (Suc n) (Suc c))" for n c
    by (meson s converse_rtranclp_into_rtranclp rtranclp.rtrancl_refl)
  moreover have "t = ?s Locking None (timeouts t) (calls t)" using assms by simp
  moreover have "worker_period t = ?s Locking None (Suc (timeouts t)) (Suc (calls t))"
    using assms by (cases t) (simp add: worker_period_def)
  ultimately show ?thesis by metis
qed

lemma between_periods_start:
  assumes "Timer_start Timer_init = Some t"
  shows "between_periods t \<and> calls t = 0"
proof -
  have "timer_reachable t" by (rule by_owner [OF init]) (rule owner_step.start, simp add: Timer_init_def, rule assms)
  with assms show ?thesis by (auto simp: between_periods_def Timer_start_def Timer_init_def)
qed

lemma between_periods_period:
  assumes "between_periods t"
  shows "between_periods (worker_period t) \<and> calls (worker_period t) = Suc (calls t)"
proof -
  have "worker_step\<^sup>*\<^sup>* t (worker_period t)" using assms by (simp add: between_periods_def worker_period_steps)
  then have "timer_reachable (worker_period t)"
    by (induction rule: rtranclp_induct) (use assms in \<open>auto simp: between_periods_def intro: by_worker\<close>)
  with assms show ?thesis by (simp add: between_periods_def worker_period_def)
qed

section \<open>Periodicity\<close>

text \<open>
  C32: in every reachable state of the timer object the callback has been entered at most
  as often as a wait of one full interval has elapsed. In particular the callback does not
  run before the first interval has passed.
\<close>

theorem timer_calls_follow_timeouts:
  assumes "timer_reachable t"
  shows "calls t \<le> timeouts t"
  using timer_reachable_inv [OF assms] by (simp add: timer_inv_def)

section \<open>Stopping\<close>

definition timer_step :: "timer \<Rightarrow> timer \<Rightarrow> bool" where
  "timer_step t t' \<longleftrightarrow> worker_step t t' \<or> owner_step t t'"

text \<open>Calls that are still to come after \<open>stop\<close> has stored \<open>false\<close>.\<close>

fun late_calls :: "worker_pc \<Rightarrow> nat" where
  "late_calls Unlocked = 1"
| "late_calls _ = 0"

lemma timer_step_inv: "timer_inv t \<Longrightarrow> timer_step t t' \<Longrightarrow> timer_inv t'"
  by (auto simp: timer_step_def intro: timer_inv_worker timer_inv_owner)

lemma timer_step_stopped:
  assumes "timer_step t t'" and "timer_inv t" and "\<not> running t"
  shows "\<not> running t' \<and> calls t \<le> calls t' \<and> calls t' + late_calls (worker t') = calls t + late_calls (worker t)"
  using assms unfolding timer_step_def
  by (auto elim!: worker_stepE owner_stepE simp: Timer_start_def timer_inv_def split: if_splits)

text \<open>
  C31: once \<open>stop\<close> has stored \<open>running = false\<close>, the callback is entered at most once more,
  whatever further steps the two threads make, a second \<open>start\<close> included, and only if the
  worker had released the mutex for this call before \<open>stop\<close> took it. In particular no call is
  left when \<open>stop\<close> has joined the thread: from then on the timer is silent for ever.
\<close>

theorem timer_silent_after_stop:
  assumes "timer_reachable t" and "timer_step\<^sup>*\<^sup>* t t'" and "\<not> running t"
  shows "\<not> running t' \<and> calls t' \<le> Suc (calls t) \<and> (worker t \<noteq> Unlocked \<longrightarrow> calls t' = calls t)"
proof -
  from assms(2,3) have "\<not> running t' \<and> timer_inv t' \<and> calls t \<le> calls t' \<and>
      calls t' + late_calls (worker t') = calls t + late_calls (worker t)"
  proof (induction rule: rtranclp_induct)
    case base
    then show ?case by (simp add: timer_reachable_inv [OF assms(1)])
  next
    case (step t1 t2)
    then show ?case using timer_step_inv [of t1 t2] timer_step_stopped [of t1 t2] by simp
  qed
  moreover have "late_calls (worker t) = (if worker t = Unlocked then 1 else 0)" by (cases "worker t") simp_all
  ultimately show ?thesis by (auto split: if_splits)
qed

text \<open>The number of worker steps that are left before \<open>join\<close> can return.\<close>

fun steps_to_finish :: "worker_pc \<Rightarrow> nat" where
  "steps_to_finish NoThread = 0"
| "steps_to_finish Finished = 0"
| "steps_to_finish Testing = 1"
| "steps_to_finish TestingTimedOut = 1"
| "steps_to_finish Locking = 2"
| "steps_to_finish (Relocking _) = 2"
| "steps_to_finish Calling = 3"
| "steps_to_finish Blocked = 3"
| "steps_to_finish Unlocked = 4"
| "steps_to_finish TimedOut = 5"

lemma worker_step_stopped_decreases:
  assumes "timer_inv t" and "worker_step t t'" and "\<not> running t"
  shows "steps_to_finish (worker t') < steps_to_finish (worker t) \<and> owner t' = owner t"
  using assms by (auto elim!: worker_stepE simp: timer_inv_def)

lemma worker_step_enabled:
  assumes "timer_inv t" and "owner t \<noteq> StopLocked" and "worker t \<noteq> NoThread" and "worker t \<noteq> Finished"
  shows "\<exists>t'. worker_step t t'"
proof (cases "worker t")
  case (Relocking b)
  with assms have "mutex t = None" by (cases "mutex t"; cases "the (mutex t)") (auto simp: timer_inv_def)
  with Relocking show ?thesis by (cases b) (auto intro: worker_step.intros)
next
  case Locking
  with assms have "mutex t = None" by (cases "mutex t"; cases "the (mutex t)") (auto simp: timer_inv_def)
  with Locking show ?thesis by (auto intro: worker_step.intros)
next
  case Testing
  then show ?thesis by (cases "running t") (auto intro: worker_step.intros)
next
  case TestingTimedOut
  then show ?thesis by (cases "running t") (auto intro: worker_step.intros)
qed (use assms in \<open>auto intro: worker_step.intros\<close>)

text \<open>
  C13: \<open>stop\<close> returns. While its caller waits in \<open>join\<close> the worker is never left blocked in
  \<open>wait_for\<close> (no notification is lost), it always has a step to make until it has finished,
  and each of its steps brings it strictly closer to the end of the thread function, of
  which it is at most three steps away, or four if the callback is still to be entered.
\<close>

theorem timer_stop_joins:
  assumes "timer_reachable t" and "owner t = StopJoining"
  shows "worker t \<noteq> Blocked \<and> steps_to_finish (worker t) \<le> (if worker t = Unlocked then 4 else 3) \<and>
    (worker t \<in> {NoThread, Finished} \<or> (\<exists>t'. worker_step t t')) \<and>
    (\<forall>t'. worker_step t t' \<longrightarrow>
       owner t' = StopJoining \<and> steps_to_finish (worker t') < steps_to_finish (worker t))"
proof -
  have inv: "timer_inv t" using assms(1) by (rule timer_reachable_inv)
  with assms(2) have stopped: "\<not> running t" and "worker t \<noteq> Blocked" and "worker t \<noteq> TimedOut"
    by (auto simp: timer_inv_def)
  then have "steps_to_finish (worker t) \<le> (if worker t = Unlocked then 4 else 3)" by (cases "worker t") simp_all
  moreover have "worker t \<in> {NoThread, Finished} \<or> (\<exists>t'. worker_step t t')"
    using worker_step_enabled [OF inv] assms(2) by auto
  ultimately show ?thesis
    using worker_step_stopped_decreases [OF inv _ stopped] assms(2) \<open>worker t \<noteq> Blocked\<close> by auto
qed

section \<open>Concrete runs\<close>

lemma timer_reachable_stopping:
  "timer_reachable (Timer_init\<lparr>worker := Locking, running := False, owner := StopJoining\<rparr>)"
proof -
  let ?t1 = "Timer_init\<lparr>worker := Locking\<rparr>"
  have "timer_reachable ?t1"
    by (rule by_owner [OF init]) (rule owner_step.start, simp_all add: Timer_init_def Timer_start_def)
  then have "timer_reachable (?t1\<lparr>owner := StopLocking\<rparr>)"
    by (rule by_owner) (rule owner_step.stop_call, simp add: Timer_init_def)
  then have "timer_reachable (?t1\<lparr>owner := StopLocked, mutex := Some Owner\<rparr>)"
    by (rule by_owner) (use owner_step.stop_lock [of "?t1\<lparr>owner := StopLocking\<rparr>"] in \<open>simp add: Timer_init_def\<close>)
  then have "timer_reachable (?t1\<lparr>owner := StopNotifying, running := False\<rparr>)"
    by (rule by_owner)
      (use owner_step.stop_write [of "?t1\<lparr>owner := StopLocked, mutex := Some Owner\<rparr>"] in \<open>simp add: Timer_init_def\<close>)
  then have "timer_reachable (?t1\<lparr>owner := StopJoining, running := False\<rparr>)"
    by (rule by_owner)
      (use owner_step.stop_notify [of "?t1\<lparr>owner := StopNotifying, running := False\<rparr>"] in \<open>simp add: Timer_init_def\<close>)
  then show ?thesis by (simp add: Timer_init_def)
qed

lemma timer_reachable_blocked: "timer_reachable (Timer_init\<lparr>worker := Blocked\<rparr>)"
proof -
  have "timer_reachable (Timer_init\<lparr>worker := Locking\<rparr>)"
    by (rule by_owner [OF init]) (rule owner_step.start, simp_all add: Timer_init_def Timer_start_def)
  then have "timer_reachable (Timer_init\<lparr>worker := Testing, mutex := Some Worker\<rparr>)"
    by (rule by_worker)
      (use worker_step.acquire [of "Timer_init\<lparr>worker := Locking\<rparr>"] in \<open>simp add: Timer_init_def\<close>)
  then show ?thesis
    by (rule by_worker)
      (use worker_step.test_block [of "Timer_init\<lparr>worker := Testing, mutex := Some Worker\<rparr>"] in
        \<open>simp add: Timer_init_def\<close>)
qed

theorem timer_calls_follow_timeouts_witness:
  "timer_reachable (Timer_init\<lparr>worker := Blocked\<rparr>) \<and>
   calls (Timer_init\<lparr>worker := Blocked\<rparr>) \<le> timeouts (Timer_init\<lparr>worker := Blocked\<rparr>)"
  using timer_calls_follow_timeouts [OF timer_reachable_blocked] timer_reachable_blocked by simp

text \<open>A run in which \<open>stop\<close> stores \<open>false\<close> while the worker is about to enter the callback.\<close>

lemma timer_reachable_late:
  "timer_reachable (Timer_init\<lparr>worker := Unlocked, running := False, owner := StopNotifying, timeouts := 1\<rparr>)"
proof -
  let ?t = "\<lambda>pc m. Timer_init\<lparr>worker := pc, mutex := m, timeouts := 1\<rparr>"
  have "timer_reachable (?t (Relocking True) None)"
    by (rule by_worker [OF timer_reachable_blocked])
      (use worker_step.wake_timeout [of "Timer_init\<lparr>worker := Blocked\<rparr>"] in \<open>simp add: Timer_init_def\<close>)
  then have "timer_reachable (?t TestingTimedOut (Some Worker))"
    by (rule by_worker) (use worker_step.reacquire_timeout [of "?t (Relocking True) None"] in \<open>simp add: Timer_init_def\<close>)
  then have "timer_reachable (?t TimedOut (Some Worker))"
    by (rule by_worker)
      (use worker_step.timeout_running [of "?t TestingTimedOut (Some Worker)"] in \<open>simp add: Timer_init_def\<close>)
  then have "timer_reachable (?t Unlocked None)"
    by (rule by_worker) (use worker_step.unlock [of "?t TimedOut (Some Worker)"] in \<open>simp add: Timer_init_def\<close>)
  then have "timer_reachable ((?t Unlocked None)\<lparr>owner := StopLocking\<rparr>)"
    by (rule by_owner) (rule owner_step.stop_call, simp add: Timer_init_def)
  then have "timer_reachable ((?t Unlocked None)\<lparr>owner := StopLocked, mutex := Some Owner\<rparr>)"
    by (rule by_owner)
      (use owner_step.stop_lock [of "(?t Unlocked None)\<lparr>owner := StopLocking\<rparr>"] in \<open>simp add: Timer_init_def\<close>)
  then have "timer_reachable ((?t Unlocked None)\<lparr>owner := StopNotifying, running := False\<rparr>)"
    by (rule by_owner)
      (use owner_step.stop_write [of "(?t Unlocked None)\<lparr>owner := StopLocked, mutex := Some Owner\<rparr>"] in
        \<open>simp add: Timer_init_def\<close>)
  then show ?thesis by (simp add: Timer_init_def)
qed

theorem timer_silent_after_stop_witness:
  "\<exists>t t'. timer_reachable t \<and> \<not> running t \<and> timer_step\<^sup>*\<^sup>* t t' \<and> calls t = 0 \<and> calls t' = 1 \<and> calls t' \<le> Suc (calls t)"
proof -
  let ?t = "Timer_init\<lparr>worker := Unlocked, running := False, owner := StopNotifying, timeouts := 1\<rparr>"
  let ?t' = "?t\<lparr>worker := Calling, calls := Suc (calls ?t)\<rparr>"
  have "timer_step ?t ?t'" unfolding timer_step_def by (rule disjI1, rule worker_step.callback) simp
  then have run: "timer_step\<^sup>*\<^sup>* ?t ?t'" ..
  have "calls ?t' \<le> Suc (calls ?t)" using timer_silent_after_stop [OF timer_reachable_late run] by simp
  with run timer_reachable_late show ?thesis
    by (intro exI [of _ ?t] exI [of _ ?t']) (simp add: Timer_init_def)
qed

theorem timer_stop_joins_witness:
  "\<exists>t'. worker_step (Timer_init\<lparr>worker := Locking, running := False, owner := StopJoining\<rparr>) t'"
  using timer_stop_joins [OF timer_reachable_stopping] by simp

end
