(* ===== verification/MonotonicTimer.thy ===== *)
theory MonotonicTimer
  imports Double Timer
begin

unbundle bit_operations_syntax

text \<open>
  \<open>src/src/monotonictimer.cpp\<close>: the time source of the daemon. The processor (CPUID, the time
  stamp counter), the perf page of the kernel and the operating system's clock are
  parameters: a record of answers, or the value of one reading.
\<close>

section \<open>State\<close>

record monotonic_timer =
  valid :: bool
  deviationThreshold :: double
  frequency :: rat
  nsPerTickMultiplier :: u64
  interval :: int
  periodic :: timer
  startTime :: u64
  startTsc :: u64

datatype mt_error = StdException | Undefined

section \<open>Reading the hardware\<close>

text \<open>The answers of the CPUID intrinsics; \<open>None\<close> stands for an unsupported leaf.\<close>

record cpu =
  cpuid_max :: u32
  cpuid_edx :: "u32 \<Rightarrow> u32 option"
  cpuid_count_edx :: "u32 \<Rightarrow> u32 \<Rightarrow> u32 option"

definition checkTsc :: "cpu \<Rightarrow> bool" where
  "checkTsc c =
     (if cpuid_max c < 0x80000007 then False
      else if (case cpuid_edx c 0x80000001 of
                 None \<Rightarrow> True
               | Some edx \<Rightarrow> (ucast edx AND push_bit 27 (1 :: u64)) = 0) then False
      else if (case cpuid_count_edx c 0x80000007 0 of
                 None \<Rightarrow> True
               | Some edx \<Rightarrow> (ucast edx AND push_bit 8 (1 :: u64)) = 0) then False
      else True)"

text \<open>
  What the perf API answers: the file descriptor, the page size and the mapped page
  (\<open>time_shift\<close>, \<open>time_mult\<close>), \<open>None\<close> for \<open>MAP_FAILED\<close>.
\<close>

record perf =
  perf_fd :: int
  perf_page_size :: int
  perf_page :: "(u16 \<times> u32) option"

datatype perf_call = Munmap int | Close int

text \<open>
  The frequency in MHz with the calls that give resources back. A shift of \<open>1ULL\<close> by 64 or
  more is undefined.
\<close>

definition readFrequency :: "perf \<Rightarrow> (rat \<times> perf_call list) option" where
  "readFrequency p =
     (let fileDescriptor = perf_fd p in
      if fileDescriptor = - 1 then Some (0, [])
      else let pageSize = perf_page_size p in
        if pageSize = - 1 then Some (0, [Close fileDescriptor])
        else case perf_page p of
          None \<Rightarrow> Some (0, [Close fileDescriptor])
        | Some (time_shift, time_mult) \<Rightarrow>
            let multiplier = double_of_word time_mult;
                released = [Munmap pageSize, Close fileDescriptor]
            in if multiplier > 0
               then if unat time_shift < 64
                    then Some (ddiv (dmul 1000 (double_of_word (push_bit (unat time_shift) (1 :: u64)))) multiplier, released)
                    else None
               else Some (0, released))"

text \<open>\<open>clock_gettime(CLOCK_MONOTONIC_RAW)\<close> answers seconds and nanoseconds.\<close>

definition getTime :: "int \<times> int \<Rightarrow> u64" where
  "getTime ts = word_of_int (fst ts) * 1000000000 + word_of_int (snd ts)"

section \<open>Operations\<close>

text \<open>
  The constructor; \<open>ts\<close> and \<open>tsc\<close> are the two readings it takes. It throws when the processor
  has no invariant TSC or the frequency cannot be read; converting an out-of-range double to
  \<open>uint64_t\<close> would be undefined.
\<close>

definition MonotonicTimer_new ::
    "cpu \<Rightarrow> perf \<Rightarrow> int \<times> int \<Rightarrow> u64 \<Rightarrow> int \<Rightarrow> double \<Rightarrow> mt_error + monotonic_timer" where
  "MonotonicTimer_new c p ts tsc itv threshold =
     (if \<not> checkTsc c then Inl StdException
      else case readFrequency p of
        None \<Rightarrow> Inl Undefined
      | Some (freq, _) \<Rightarrow>
          if freq > 0
          then case u64_of_double (ddiv (double_of_word (push_bit 32 (1000 :: u64))) freq) of
                 None \<Rightarrow> Inl Undefined
               | Some m \<Rightarrow>
                   (case Timer_start Timer_init of
                      None \<Rightarrow> Inl Undefined
                    | Some t \<Rightarrow>
                        Inr \<lparr>valid = True, deviationThreshold = threshold, frequency = freq,
                             nsPerTickMultiplier = m, interval = itv, periodic = t,
                             startTime = getTime ts, startTsc = tsc\<rparr>)
          else Inl StdException)"

definition MonotonicTimer_get :: "monotonic_timer \<Rightarrow> u64 \<Rightarrow> u64" where
  "MonotonicTimer_get mt tsc =
     ucast (drop_bit 32 ((ucast (tsc - startTsc mt) :: u128) * ucast (nsPerTickMultiplier mt)))"

definition MonotonicTimer_getFrequency :: "monotonic_timer \<Rightarrow> rat" where
  "MonotonicTimer_getFrequency mt = frequency mt"

definition MonotonicTimer_getValid :: "monotonic_timer \<Rightarrow> bool" where
  "MonotonicTimer_getValid mt = valid mt"

text \<open>The periodic check; \<open>ts\<close> and \<open>tsc\<close> are its two readings.\<close>

definition MonotonicTimer_callback :: "int \<times> int \<Rightarrow> u64 \<Rightarrow> monotonic_timer \<Rightarrow> monotonic_timer" where
  "MonotonicTimer_callback ts tsc mt =
     (let time = getTime ts in
      if time = startTime mt then mt\<lparr>valid := False\<rparr>
      else
        let freq = ddiv (dmul (double_of_word (1000 :: u64)) (double_of_word (tsc - startTsc mt)))
                        (double_of_word (time - startTime mt));
            deviation = ddiv \<bar>dsub (frequency mt) freq\<bar> (frequency mt)
        in if dge deviation (deviationThreshold mt) then mt\<lparr>valid := False\<rparr> else mt)"

text \<open>Checks that the timer thread makes one after the other, each with its readings.\<close>

fun MonotonicTimer_checks :: "((int \<times> int) \<times> u64) list \<Rightarrow> monotonic_timer \<Rightarrow> monotonic_timer" where
  "MonotonicTimer_checks [] mt = mt"
| "MonotonicTimer_checks ((ts, tsc) # readings) mt =
     MonotonicTimer_checks readings
       ((MonotonicTimer_callback ts tsc mt)\<lparr>periodic := worker_period (periodic mt)\<rparr>)"

section \<open>The fixed-point conversion\<close>

lemma unat_MonotonicTimer_get:
  "unat (MonotonicTimer_get mt tsc) =
     (unat (tsc - startTsc mt) * unat (nsPerTickMultiplier mt)) div 2 ^ 32 mod 2 ^ 64"
proof -
  have "unat (tsc - startTsc mt) * unat (nsPerTickMultiplier mt) < 2 ^ 64 * 2 ^ 64"
    by (rule mult_strict_mono) (simp_all only: unat_u64_less, simp_all)
  then have "unat ((ucast (tsc - startTsc mt) :: u128) * ucast (nsPerTickMultiplier mt)) =
      unat (tsc - startTsc mt) * unat (nsPerTickMultiplier mt)"
    by (simp add: unat_word_ariths unat_ucast_up)
  moreover have "unat (drop_bit 32 (w :: u128)) = unat w div 2 ^ 32" for w
    by (simp only: unat_drop_bit_eq) (rule drop_bit_eq_div)
  ultimately show ?thesis
    by (simp add: MonotonicTimer_get_def unsigned_ucast_eq take_bit_eq_mod)
qed

text \<open>
  \<open>get\<close> computes the elapsed ticks times the multiplier, shifted right by 32, without any
  loss: the 128-bit product does not overflow, and only the final conversion to 64 bits
  reduces modulo \<open>2\<^sup>6\<^sup>4\<close>.
\<close>

theorem MonotonicTimer_get_exact:
  "unat (MonotonicTimer_get mt tsc) =
     (unat (tsc - startTsc mt) * unat (nsPerTickMultiplier mt)) div 2 ^ 32 mod 2 ^ 64"
  by (rule unat_MonotonicTimer_get)

lemma unat_sub_mono: "s \<le> a \<Longrightarrow> a \<le> b \<Longrightarrow> unat (a - s) \<le> unat (b - s)" for s a b :: "'a::len word"
  by (metis word_le_nat_alt word_le_minus_mono_left order_trans unat_sub diff_le_mono)

text \<open>The elapsed nanoseconds as a natural number, before the reduction to 64 bits.\<close>

definition elapsed_ns :: "monotonic_timer \<Rightarrow> u64 \<Rightarrow> nat" where
  "elapsed_ns mt tsc = (unat (tsc - startTsc mt) * unat (nsPerTickMultiplier mt)) div 2 ^ 32"

lemma get_elapsed:
  "elapsed_ns mt tsc < 2 ^ 64 \<Longrightarrow> unat (MonotonicTimer_get mt tsc) = elapsed_ns mt tsc"
  by (simp add: unat_MonotonicTimer_get elapsed_ns_def)

lemma elapsed_ns_mono:
  assumes "startTsc mt \<le> tsc1" and "tsc1 \<le> tsc2"
  shows "elapsed_ns mt tsc1 \<le> elapsed_ns mt tsc2"
  unfolding elapsed_ns_def using unat_sub_mono [OF assms]
  by (intro div_le_mono mult_right_mono) simp_all

text \<open>
  C33: the timer is monotonic: for two readings of the time stamp counter taken in order after
  the start, the reported times are in order, as long as the elapsed time fits 64 bits
  (some 584 years).
\<close>

theorem MonotonicTimer_get_mono:
  assumes "startTsc mt \<le> tsc1" and "tsc1 \<le> tsc2" and "elapsed_ns mt tsc2 < 2 ^ 64"
  shows "MonotonicTimer_get mt tsc1 \<le> MonotonicTimer_get mt tsc2"
proof -
  have "elapsed_ns mt tsc1 \<le> elapsed_ns mt tsc2" using assms(1,2) by (rule elapsed_ns_mono)
  with assms(3) show ?thesis by (simp add: word_le_nat_alt get_elapsed)
qed

text \<open>
  C34: the timer is not strictly monotonic on processors faster than one tick per nanosecond:
  with a multiplier below \<open>2\<^sup>3\<^sup>2\<close> (a TSC frequency above 1000 MHz) the first two ticks are
  reported as the same time.
\<close>

theorem MonotonicTimer_get_not_strict:
  assumes "nsPerTickMultiplier mt < 2 ^ 32"
  shows "MonotonicTimer_get mt (startTsc mt + 1) = MonotonicTimer_get mt (startTsc mt)"
proof -
  have "unat (nsPerTickMultiplier mt) < 2 ^ 32"
    using assms by (simp add: word_less_nat_alt)
  then have "elapsed_ns mt (startTsc mt + 1) = 0" and "elapsed_ns mt (startTsc mt) = 0"
    by (simp_all add: elapsed_ns_def)
  then show ?thesis
    by (simp add: word_unat_eq_iff get_elapsed)
qed

text \<open>
  With at most one tick per nanosecond (a multiplier of at least \<open>2\<^sup>3\<^sup>2\<close>) the timer is
  strictly monotonic.
\<close>

theorem MonotonicTimer_get_strict:
  assumes "2 ^ 32 \<le> nsPerTickMultiplier mt" and "startTsc mt \<le> tsc1" and "tsc1 < tsc2"
    and "elapsed_ns mt tsc2 < 2 ^ 64"
  shows "MonotonicTimer_get mt tsc1 < MonotonicTimer_get mt tsc2"
proof -
  let ?a = "unat (tsc1 - startTsc mt)" and ?b = "unat (tsc2 - startTsc mt)"
    and ?m = "unat (nsPerTickMultiplier mt)"
  have m: "2 ^ 32 \<le> ?m" using assms(1) by (simp add: word_le_nat_alt)
  have "?a < ?b" using assms(2,3) by (simp add: unat_sub word_le_nat_alt word_less_nat_alt)
  then have "Suc ?a * ?m \<le> ?b * ?m" by (intro mult_le_mono1 Suc_leI)
  with m have "?a * ?m + 2 ^ 32 \<le> ?b * ?m" by (simp only: mult_Suc)
  then have "(?a * ?m + 2 ^ 32) div 2 ^ 32 \<le> ?b * ?m div 2 ^ 32" by (rule div_le_mono)
  then have "elapsed_ns mt tsc1 < elapsed_ns mt tsc2" by (simp add: elapsed_ns_def)
  with assms(4) show ?thesis by (simp add: word_less_nat_alt get_elapsed)
qed

section \<open>Construction\<close>

lemma readFrequency_value:
  assumes "perf_fd p \<noteq> - 1" and "perf_page_size p \<noteq> - 1" and "perf_page p = Some (s, m)"
    and "unat s < 64" and "0 < m"
  obtains f where "readFrequency p = Some (f, [Munmap (perf_page_size p), Close (perf_fd p)])"
    and "close (1 / 2 ^ 53) (1000 * 2 ^ unat s / of_nat (unat m)) f"
proof
  have m: "0 < unat m" "unat m \<le> 2 ^ 32"
    using assms(5) unat_u32_less [of m] by (simp_all add: word_less_nat_alt)
  have "double_of_word (push_bit (unat s) (1 :: u64)) = 2 ^ unat s"
  proof -
    have "unat (push_bit (unat s) (1 :: u64)) = 2 ^ unat s"
      using assms(4) unsigned_of_nat [of "2 ^ unat s", where ?'b = 64 and ?'a = nat]
      by (simp add: push_bit_eq_mult take_bit_nat_eq_self)
    then show ?thesis by (simp add: double_of_word_def round_double_pow2 del: of_nat_unat)
  qed
  moreover have "dmul 1000 (2 ^ unat s) = 1000 * 2 ^ unat s"
    unfolding dmul_def by (rule round_double_exact [of _ 1000 "int (unat s)"]) (simp_all del: of_nat_unat)
  ultimately show "readFrequency p =
      Some (ddiv (1000 * 2 ^ unat s) (of_nat (unat m)), [Munmap (perf_page_size p), Close (perf_fd p)])"
    using assms m by (simp add: readFrequency_def Let_def double_of_u32 del: of_nat_unat)
  show "close (1 / 2 ^ 53) (1000 * 2 ^ unat s / of_nat (unat m)) (ddiv (1000 * 2 ^ unat s) (of_nat (unat m)))"
    unfolding ddiv_def
  proof (rule close_round)
    have "(of_nat (unat m) :: rat) \<le> of_nat (2 ^ 32)" using m(2) by (simp only: of_nat_le_iff)
    then have "1 / 2 ^ 32 \<le> 1 / (of_nat (unat m) :: rat)"
      using m(1) by (intro frac_le) (simp_all del: of_nat_unat)
    also have "\<dots> \<le> 1000 * 2 ^ unat s / of_nat (unat m)"
      using one_le_power [of "2 :: rat" "unat s"] by (intro divide_right_mono) linarith+
    finally show "1 / 2 ^ 100 \<le> 1000 * 2 ^ unat s / (of_nat (unat m) :: rat)"
      by (rule order_trans [rotated]) simp
  qed
qed

text \<open>
  The ideal conversion factor of the perf page is \<open>time_mult / 2\<^sup>t\<^sup>i\<^sup>m\<^sup>e\<^sup>_\<^sup>s\<^sup>h\<^sup>i\<^sup>f\<^sup>t\<close> nanoseconds per
  tick; the multiplier is this factor in 32.32 fixed point.
\<close>

definition ideal_multiplier :: "u16 \<Rightarrow> u32 \<Rightarrow> rat" where
  "ideal_multiplier s m = of_nat (unat m) * 2 ^ 32 / 2 ^ unat s"

lemma multiplier_value:
  assumes f: "close (1 / 2 ^ 53) (1000 * 2 ^ unat s / of_nat (unat m)) f"
    and "unat s < 64" and "0 < m"
  obtains w where "u64_of_double (ddiv (double_of_word (push_bit 32 (1000 :: u64))) f) = Some w"
    and "\<bar>of_nat (unat w) - ideal_multiplier s m\<bar> \<le> 1 + ideal_multiplier s m / 2 ^ 51"
proof -
  let ?M = "ideal_multiplier s m" and ?F = "1000 * 2 ^ unat s / (of_nat (unat m) :: rat)"
  let ?X = "1000 * 2 ^ 32 / f"
  have m: "0 < unat m" "unat m \<le> 2 ^ 32 - 1"
    using assms(3) unat_u32_less [of m] by (simp_all add: word_less_nat_alt)
  have mq: "(of_nat (unat m) :: rat) \<le> of_nat (2 ^ 32 - 1)" "0 < (of_nat (unat m) :: rat)"
    using m by (simp_all only: of_nat_le_iff of_nat_0_less_iff)
  have F: "0 < ?F" using mq(2) by (simp del: of_nat_unat)
  have "1000 * 2 ^ 32 / ?F = ?M"
    using mq(2) by (simp add: ideal_multiplier_def field_simps del: of_nat_unat)
  with close_divide [OF f _ _ F, of "1000 * 2 ^ 32"] have X: "close (2 / 2 ^ 53) ?M ?X"
    by (simp del: of_nat_unat)
  have M: "1 / 2 ^ 64 \<le> ?M" "?M \<le> (2 ^ 32 - 1) * 2 ^ 32"
  proof -
    have s: "(2 :: rat) ^ unat s \<le> 2 ^ 64" using assms(2) by (intro power_increasing) simp_all
    have "1 / 2 ^ 64 \<le> 1 / (2 :: rat) ^ unat s" using s by (intro frac_le) simp_all
    also have "\<dots> \<le> ?M" unfolding ideal_multiplier_def
      using mq(2) m(1) by (intro divide_right_mono) (simp_all del: of_nat_unat)
    finally show "1 / 2 ^ 64 \<le> ?M" .
    have "?M \<le> of_nat (unat m) * 2 ^ 32 / 1" unfolding ideal_multiplier_def
      by (intro divide_left_mono) (simp_all del: of_nat_unat)
    also have "\<dots> \<le> (2 ^ 32 - 1) * 2 ^ 32" using mq(1) by (simp del: of_nat_unat)
    finally show "?M \<le> (2 ^ 32 - 1) * 2 ^ 32" .
  qed
  have "1 / 2 ^ 100 \<le> ?X"
    using close_bounds [OF X] M(1) by simp
  then have "close (1 / 2 ^ 53) ?X (round_double ?X)" by (rule close_round)
  then have R: "close (1 / 2 ^ 51) ?M (round_double ?X)"
    by (rule close_weaken [OF close_trans [OF X]]) simp_all
  have "0 \<le> round_double ?X" and "round_double ?X < 2 ^ 64"
    using close_bounds [OF R] M by (simp_all add: field_simps)
  from u64_of_double_floor [OF this] obtain w where
    w: "u64_of_double (round_double ?X) = Some w"
      "of_nat (unat w) \<le> round_double ?X" "round_double ?X < of_nat (unat w) + 1"
    by blast
  have k: "double_of_word (push_bit 32 (1000 :: u64)) = 1000 * 2 ^ 32"
    by (subst double_of_word_small) simp_all
  show ?thesis
  proof (rule that)
    show "u64_of_double (ddiv (double_of_word (push_bit 32 (1000 :: u64))) f) = Some w"
      using w(1) by (simp only: k ddiv_def)
    show "\<bar>of_nat (unat w) - ?M\<bar> \<le> 1 + ?M / 2 ^ 51"
      using w(2,3) close_bounds [OF R] by (simp add: abs_le_iff algebra_simps del: of_nat_unat)
  qed
qed

lemma MonotonicTimer_new_value:
  assumes "checkTsc c" and "perf_fd p \<noteq> - 1" and "perf_page_size p \<noteq> - 1"
    and "perf_page p = Some (s, m)" and "unat s < 64" and "0 < m"
  shows "\<exists>mt. MonotonicTimer_new c p ts tsc itv threshold = Inr mt \<and> valid mt \<and> 0 < frequency mt \<and>
     startTsc mt = tsc \<and> startTime mt = getTime ts \<and> worker (periodic mt) = Locking \<and>
     \<bar>of_nat (unat (nsPerTickMultiplier mt)) - ideal_multiplier s m\<bar> \<le> 1 + ideal_multiplier s m / 2 ^ 51"
proof -
  obtain f where rf: "readFrequency p = Some (f, [Munmap (perf_page_size p), Close (perf_fd p)])"
    and f: "close (1 / 2 ^ 53) (1000 * 2 ^ unat s / of_nat (unat m)) f"
    using readFrequency_value [OF assms(2-6)] by blast
  obtain w where w: "u64_of_double (ddiv (double_of_word (push_bit 32 (1000 :: u64))) f) = Some w"
    "\<bar>of_nat (unat w) - ideal_multiplier s m\<bar> \<le> 1 + ideal_multiplier s m / 2 ^ 51"
    using multiplier_value [OF f assms(5,6)] by blast
  have "0 < (of_nat (unat m) :: rat)" using assms(6) by (simp add: word_less_nat_alt del: of_nat_unat)
  then have "0 < (1 - 1 / 2 ^ 53) * (1000 * 2 ^ unat s / of_nat (unat m) :: rat)" by simp
  with close_bounds [OF f] have "0 < f" by linarith
  with assms(1) rf w show ?thesis
    by (simp add: MonotonicTimer_new_def Timer_start_def Timer_init_def del: of_nat_unat)
qed

text \<open>
  C16: on a processor with an invariant TSC and a readable perf page (\<open>time_mult\<close> positive,
  \<open>time_shift\<close> below 64) the constructor succeeds: the conversion of the double to
  \<open>uint64_t\<close> is always in range, the timer starts valid with its periodic check armed, and the
  multiplier is the ideal factor up to one unit of the last place and a relative error of
  \<open>2\<^sup>-\<^sup>5\<^sup>1\<close>.
\<close>

theorem MonotonicTimer_new_accurate:
  assumes "checkTsc c" and "perf_fd p \<noteq> - 1" and "perf_page_size p \<noteq> - 1"
    and "perf_page p = Some (s, m)" and "unat s < 64" and "0 < m"
  shows "\<exists>mt. MonotonicTimer_new c p ts tsc itv threshold = Inr mt \<and> valid mt \<and> 0 < frequency mt \<and>
     startTsc mt = tsc \<and> startTime mt = getTime ts \<and> worker (periodic mt) = Locking \<and>
     \<bar>of_nat (unat (nsPerTickMultiplier mt)) - ideal_multiplier s m\<bar> \<le> 1 + ideal_multiplier s m / 2 ^ 51"
  by (rule MonotonicTimer_new_value [OF assms])

text \<open>
  C37: every exit path of \<open>readFrequency\<close> gives its resources back: the descriptor is closed
  exactly once if it was opened, and the page is unmapped exactly if it was mapped, before
  the descriptor is closed.
\<close>

theorem readFrequency_releases:
  assumes "readFrequency p = Some (f, released)"
  shows "released = (if perf_fd p = - 1 then []
     else if perf_page_size p = - 1 \<or> perf_page p = None then [Close (perf_fd p)]
     else [Munmap (perf_page_size p), Close (perf_fd p)])"
  using assms by (auto simp: readFrequency_def Let_def split: if_splits option.splits)

text \<open>
  What the processor has to provide, in the terms of its manual: the extended CPUID leaves up
  to \<open>8000_0007h\<close> exist, leaf \<open>8000_0001h\<close> announces RDTSCP in bit 27 of \<open>edx\<close>, and leaf
  \<open>8000_0007h\<close> announces the invariant TSC in bit 8 of \<open>edx\<close>.
\<close>

definition invariant_tsc :: "cpu \<Rightarrow> bool" where
  "invariant_tsc c \<longleftrightarrow> 0x80000007 \<le> cpuid_max c \<and>
     (\<exists>edx. cpuid_edx c 0x80000001 = Some edx \<and> bit edx 27) \<and>
     (\<exists>edx. cpuid_count_edx c 0x80000007 0 = Some edx \<and> bit edx 8)"

definition frequency_readable :: "perf \<Rightarrow> bool" where
  "frequency_readable p \<longleftrightarrow> perf_fd p \<noteq> - 1 \<and> perf_page_size p \<noteq> - 1 \<and>
     (\<exists>time_shift time_mult. perf_page p = Some (time_shift, time_mult) \<and> time_mult \<noteq> 0)"

lemma and_single_bit_64:
  assumes "n < 32"
  shows "(ucast (edx :: u32) AND push_bit n (1 :: u64)) = 0 \<longleftrightarrow> \<not> bit edx n"
proof -
  have "bit (ucast edx AND push_bit n (1 :: u64)) m \<longleftrightarrow> m = n \<and> bit edx n" for m
    using assms by (auto simp: bit_simps)
  then show ?thesis by (metis bit_0_eq bit_eq_iff bot_apply bot_bool_def)
qed

lemma checkTsc_invariant: "checkTsc c \<longleftrightarrow> invariant_tsc c"
proof -
  have "(ucast edx AND (134217728 :: u64)) = 0 \<longleftrightarrow> \<not> bit edx 27" "(ucast edx AND (256 :: u64)) = 0 \<longleftrightarrow> \<not> bit edx 8"
    for edx :: u32
    using and_single_bit_64 [of 27 edx] and_single_bit_64 [of 8 edx] by simp_all
  then show ?thesis by (auto simp: checkTsc_def invariant_tsc_def not_less split: option.splits)
qed

text \<open>
  C38: the constructor throws, and does not construct a timer, exactly when the processor lacks
  RDTSCP or the invariant TSC, or when the perf page cannot be opened, mapped or has a zero
  multiplier.
\<close>

theorem MonotonicTimer_new_throws:
  "MonotonicTimer_new c p ts tsc itv threshold = Inl StdException \<longleftrightarrow>
     \<not> invariant_tsc c \<or> \<not> frequency_readable p"
proof (cases "invariant_tsc c \<and> frequency_readable p")
  case True
  then obtain s m where p: "perf_fd p \<noteq> - 1" "perf_page_size p \<noteq> - 1" "perf_page p = Some (s, m)" "0 < m"
    by (auto simp: frequency_readable_def word_neq_0_conv)
  have c: "checkTsc c" using True by (simp add: checkTsc_invariant)
  have "MonotonicTimer_new c p ts tsc itv threshold \<noteq> Inl StdException"
  proof (cases "unat s < 64")
    case True
    from MonotonicTimer_new_value [OF c p(1,2,3) this p(4)] obtain mt where
      "MonotonicTimer_new c p ts tsc itv threshold = Inr mt" by blast
    then show ?thesis by simp
  next
    case False
    have "0 < double_of_word m" using p(4) by (simp add: double_of_u32 word_less_nat_alt del: of_nat_unat)
    with False p c show ?thesis by (simp add: MonotonicTimer_new_def readFrequency_def)
  qed
  with True show ?thesis by simp
next
  case False
  have "double_of_word (0 :: u32) = 0" by (simp add: double_of_word_def round_double_def)
  with False show ?thesis
    by (auto simp: MonotonicTimer_new_def readFrequency_def frequency_readable_def checkTsc_invariant Let_def
        split: option.splits)
qed

section \<open>The periodic check\<close>

text \<open>
  C36: validity is a latch. The periodic check never turns an invalid timer valid, and it
  changes nothing but the flag: the conversion of ticks to nanoseconds is the same before
  and after.
\<close>

theorem MonotonicTimer_callback_latch:
  "(MonotonicTimer_getValid (MonotonicTimer_callback ts tsc mt) \<longrightarrow> MonotonicTimer_getValid mt) \<and>
   MonotonicTimer_get (MonotonicTimer_callback ts tsc mt) = MonotonicTimer_get mt \<and>
   MonotonicTimer_getFrequency (MonotonicTimer_callback ts tsc mt) = MonotonicTimer_getFrequency mt"
  by (auto simp: MonotonicTimer_callback_def MonotonicTimer_getValid_def MonotonicTimer_get_def
      MonotonicTimer_getFrequency_def Let_def fun_eq_iff)

text \<open>
  A sequence of checks: the flag is the conjunction of their outcomes, and the thread is again
  before a period.
\<close>

lemma MonotonicTimer_callback_shape:
  "MonotonicTimer_callback ts tsc mt = mt\<lparr>valid := valid mt \<and> valid (MonotonicTimer_callback ts tsc (mt\<lparr>valid := True\<rparr>))\<rparr>"
  by (simp add: MonotonicTimer_callback_def Let_def)

lemma MonotonicTimer_checks_state:
  "MonotonicTimer_checks readings mt =
     mt\<lparr>valid := valid mt \<and> (\<forall>(ts, tsc) \<in> set readings. valid (MonotonicTimer_callback ts tsc (mt\<lparr>valid := True\<rparr>))),
        periodic := (worker_period ^^ length readings) (periodic mt)\<rparr>"
proof (induction readings mt rule: MonotonicTimer_checks.induct)
  case (2 ts tsc readings mt)
  define b where "b \<longleftrightarrow> valid mt \<and> valid (MonotonicTimer_callback ts tsc (mt\<lparr>valid := True\<rparr>))"
  have cb: "MonotonicTimer_callback ts tsc mt = mt\<lparr>valid := b\<rparr>" unfolding b_def by (rule MonotonicTimer_callback_shape)
  have "valid (MonotonicTimer_callback ts' tsc' (mt\<lparr>periodic := t, valid := True\<rparr>)) =
      valid (MonotonicTimer_callback ts' tsc' (mt\<lparr>valid := True\<rparr>))" for ts' tsc' t
    by (simp add: MonotonicTimer_callback_def Let_def)
  with 2 show ?case by (simp add: cb funpow_swap1) (simp add: b_def)
qed simp

lemma between_periods_funpow:
  assumes "between_periods t"
  shows "between_periods ((worker_period ^^ n) t) \<and> calls ((worker_period ^^ n) t) = calls t + n"
  by (induction n) (use assms between_periods_period in auto)

text \<open>The measured frequency in MHz, exact and as the check computes it.\<close>

definition exact_frequency :: "u64 \<Rightarrow> u64 \<Rightarrow> rat" where
  "exact_frequency ticks ns = 1000 * of_nat (unat ticks) / of_nat (unat ns)"

definition measured_frequency :: "u64 \<Rightarrow> u64 \<Rightarrow> rat" where
  "measured_frequency ticks ns =
     ddiv (dmul (double_of_word (1000 :: u64)) (double_of_word ticks)) (double_of_word ns)"

lemma close_double_of_word: "close (1 / 2 ^ 53) (of_nat (unat w)) (double_of_word w)"
proof (cases "unat w = 0")
  case True
  then show ?thesis by (simp add: double_of_word_def round_double_def close_def del: of_nat_unat)
next
  case False
  then have "1 \<le> (of_nat (unat w) :: rat)" by (simp del: of_nat_unat unat_eq_zero)
  then have "1 / 2 ^ 100 \<le> (of_nat (unat w) :: rat)" by (rule order_trans [rotated]) (simp del: of_nat_unat)
  then show ?thesis unfolding double_of_word_def by (rule close_round)
qed

lemma measured_frequency_close:
  assumes "0 < ns"
  shows "close (1 / 2 ^ 50) (exact_frequency ticks ns) (measured_frequency ticks ns)"
proof (cases "unat ticks = 0")
  case True
  then show ?thesis
    by (simp add: measured_frequency_def exact_frequency_def double_of_word_def round_double_def
        dmul_def ddiv_def close_def)
next
  case False
  let ?t = "of_nat (unat ticks) :: rat" and ?n = "of_nat (unat ns) :: rat"
  let ?A = "dmul 1000 (double_of_word ticks)" and ?dn = "double_of_word ns"
  have t: "1 \<le> ?t" using False by (simp del: of_nat_unat unat_eq_zero)
  have n: "1 \<le> ?n" "?n \<le> 2 ^ 64"
  proof -
    have "1 \<le> unat ns" using assms by (simp add: word_less_nat_alt)
    then show "1 \<le> ?n" by (simp del: of_nat_unat)
    have "?n \<le> of_nat (2 ^ 64)" using unat_u64_less [of ns] by (simp only: of_nat_le_iff)
    then show "?n \<le> 2 ^ 64" by simp
  qed
  have A0: "close (1 / 2 ^ 53) (1000 * ?t) (1000 * double_of_word ticks)"
    by (intro close_mult_left close_double_of_word) simp
  have "1 / 2 ^ 100 \<le> 1000 * double_of_word ticks"
    using close_bounds [OF A0] t by simp
  then have "close (1 / 2 ^ 53) (1000 * double_of_word ticks) ?A"
    unfolding dmul_def by (rule close_round)
  then have A: "close (3 / 2 ^ 53) (1000 * ?t) ?A"
    by (rule close_weaken [OF close_trans [OF A0]]) simp_all
  have A1: "1 \<le> ?A" using close_bounds [OF A] t by simp
  have "close (3 / 2 ^ 53) (1000 * ?t / ?n) (?A / ?n)"
    using close_mult_left [OF A, of "1 / ?n"] n by simp
  moreover have dn: "close (1 / 2 ^ 53) ?n ?dn" by (rule close_double_of_word)
  from close_divide [OF dn _ _ _, of ?A] have "close (2 / 2 ^ 53) (?A / ?n) (?A / ?dn)"
    using n A1 by simp
  ultimately have Q: "close (6 / 2 ^ 53) (1000 * ?t / ?n) (?A / ?dn)"
    by (rule close_weaken [OF close_trans]) simp_all
  have "1 / 2 ^ 64 \<le> 1000 * ?t / ?n" using t n by (intro frac_le) simp_all
  then have "1 / 2 ^ 100 \<le> ?A / ?dn" using close_bounds [OF Q] by simp
  then have "close (1 / 2 ^ 53) (?A / ?dn) (ddiv ?A ?dn)"
    unfolding ddiv_def by (rule close_round)
  then have "close (1 / 2 ^ 50) (1000 * ?t / ?n) (ddiv ?A ?dn)"
    by (rule close_weaken [OF close_trans [OF Q]]) simp_all
  moreover have "double_of_word (1000 :: u64) = 1000" by (subst double_of_word_small) simp_all
  ultimately show ?thesis
    by (simp add: measured_frequency_def exact_frequency_def del: of_nat_unat)
qed

text \<open>The deviation the check computes against the exact one.\<close>

lemma deviation_error:
  assumes "close (1 / 2 ^ 50) f g" and "1 / 2 ^ 100 \<le> F"
  shows "\<bar>ddiv \<bar>dsub F g\<bar> F - \<bar>F - f\<bar> / F\<bar> \<le> (1 + f / F) / 2 ^ 48"
proof -
  define D where "D = dsub F g"
  have F: "0 < F" using assms(2) by (rule less_le_trans [rotated]) simp
  have fg: "0 \<le> f" "\<bar>g - f\<bar> \<le> f / 2 ^ 50" using assms(1) by (simp_all add: close_def)
  have "\<bar>D - (F - g)\<bar> \<le> \<bar>F - g\<bar> / 2 ^ 53 + 1 / 2 ^ 1000"
    unfolding D_def dsub_def by (rule round_double_error_any)
  also have "\<dots> \<le> (F + 2 * f) / 2 ^ 53 + F / 2 ^ 60"
  proof (rule add_mono)
    have "f / 2 ^ 50 \<le> f" using fg(1) by simp
    with fg have "\<bar>g - f\<bar> \<le> f" by linarith
    with fg(1) F have "\<bar>F - g\<bar> \<le> F + 2 * f" by linarith
    then show "\<bar>F - g\<bar> / 2 ^ 53 \<le> (F + 2 * f) / 2 ^ 53" by (rule divide_right_mono) simp
    show "1 / 2 ^ 1000 \<le> F / 2 ^ 60" using assms(2) by simp
  qed
  finally have e1: "\<bar>D - (F - g)\<bar> \<le> (F + 2 * f) / 2 ^ 53 + F / 2 ^ 60" .
  have "\<bar>\<bar>D\<bar> - \<bar>F - f\<bar>\<bar> \<le> \<bar>D - (F - g)\<bar> + \<bar>g - f\<bar>" by linarith
  also have "\<dots> \<le> (F + 2 * f) / 2 ^ 53 + F / 2 ^ 60 + f / 2 ^ 50" using e1 fg(2) by (rule add_mono)
  also have "\<dots> \<le> (F + f) / 2 ^ 49" using fg(1) F by (simp add: field_simps)
  finally have D1: "\<bar>\<bar>D\<bar> - \<bar>F - f\<bar>\<bar> \<le> (F + f) / 2 ^ 49" .
  also have "(F + f) / 2 ^ 49 \<le> F + f" using fg(1) F by simp
  finally have "\<bar>D\<bar> - \<bar>F - f\<bar> \<le> F + f" by (rule abs_le_D1)
  moreover have "\<bar>F - f\<bar> \<le> F + f" using fg(1) F by linarith
  ultimately have "(\<bar>D\<bar> - \<bar>F - f\<bar>) + \<bar>F - f\<bar> \<le> (F + f) + (F + f)" by (rule add_mono)
  then have "\<bar>D\<bar> \<le> 2 * (F + f)" by simp
  with D1 have D: "\<bar>\<bar>D\<bar> - \<bar>F - f\<bar>\<bar> \<le> (F + f) / 2 ^ 49" "\<bar>D\<bar> \<le> 2 * (F + f)" by simp_all
  have "\<bar>ddiv \<bar>D\<bar> F - \<bar>D\<bar> / F\<bar> \<le> \<bar>\<bar>D\<bar> / F\<bar> / 2 ^ 53 + 1 / 2 ^ 1000"
    unfolding ddiv_def by (rule round_double_error_any)
  also have "\<dots> \<le> (2 * (F + f)) / F / 2 ^ 53 + 1 / 2 ^ 60"
    using D(2) F by (intro add_mono divide_right_mono) (simp_all add: divide_right_mono)
  finally have 1: "\<bar>ddiv \<bar>D\<bar> F - \<bar>D\<bar> / F\<bar> \<le> (2 * (F + f)) / F / 2 ^ 53 + 1 / 2 ^ 60" .
  have "\<bar>\<bar>D\<bar> / F - \<bar>F - f\<bar> / F\<bar> = \<bar>\<bar>D\<bar> - \<bar>F - f\<bar>\<bar> / F"
    using F by (simp add: abs_divide flip: diff_divide_distrib)
  also have "\<dots> \<le> (F + f) / 2 ^ 49 / F" using D(1) F by (intro divide_right_mono) simp_all
  finally have 2: "\<bar>\<bar>D\<bar> / F - \<bar>F - f\<bar> / F\<bar> \<le> (F + f) / 2 ^ 49 / F" .
  have "0 \<le> f / F" using fg F by simp
  then have "(2 * (F + f)) / F / 2 ^ 53 + 1 / 2 ^ 60 + (F + f) / 2 ^ 49 / F \<le> (1 + f / F) / 2 ^ 48"
    using F by (simp add: add_divide_distrib)
  with 1 2 show ?thesis unfolding D_def [symmetric] by linarith
qed

lemma callback_measured:
  assumes "getTime ts \<noteq> startTime mt"
  shows "MonotonicTimer_callback ts tsc mt =
    (let freq = measured_frequency (tsc - startTsc mt) (getTime ts - startTime mt) in
     if dge (ddiv \<bar>dsub (frequency mt) freq\<bar> (frequency mt)) (deviationThreshold mt)
     then mt\<lparr>valid := False\<rparr> else mt)"
  using assms by (simp add: MonotonicTimer_callback_def measured_frequency_def Let_def)

text \<open>
  C35: the periodic check detects a drifting time source. Let \<open>f\<close> be the exact quotient of
  elapsed ticks and elapsed nanoseconds in MHz and \<open>d = |F - f| / F\<close> its relative deviation
  from the frequency \<open>F\<close> the timer was built with. Up to the rounding of the double
  arithmetic, at most \<open>(1 + f/F) / 2\<^sup>4\<^sup>8\<close>, the flag is cleared when \<open>d\<close> reaches the configured
  threshold and the timer is left as it is when \<open>d\<close> is below it.
\<close>

theorem MonotonicTimer_callback_detects:
  assumes "getTime ts \<noteq> startTime mt" and "1 / 2 ^ 100 \<le> frequency mt"
    and "deviationThreshold mt = Fin T"
    and "f = exact_frequency (tsc - startTsc mt) (getTime ts - startTime mt)"
    and "d = \<bar>frequency mt - f\<bar> / frequency mt"
  shows "(T + (1 + f / frequency mt) / 2 ^ 48 \<le> d \<longrightarrow>
            \<not> MonotonicTimer_getValid (MonotonicTimer_callback ts tsc mt)) \<and>
         (d + (1 + f / frequency mt) / 2 ^ 48 < T \<longrightarrow> MonotonicTimer_callback ts tsc mt = mt)"
proof -
  let ?g = "measured_frequency (tsc - startTsc mt) (getTime ts - startTime mt)"
  have "0 < getTime ts - startTime mt" using assms(1) by (simp add: word_gt_0)
  then have "close (1 / 2 ^ 50) f ?g" unfolding assms(4) by (rule measured_frequency_close)
  moreover define x where "x = ddiv \<bar>dsub (frequency mt) ?g\<bar> (frequency mt)"
  moreover define e where "e = (1 + f / frequency mt) / 2 ^ 48"
  ultimately have "\<bar>x - d\<bar> \<le> e"
    unfolding assms(5) using assms(2) by (simp only: deviation_error)
  moreover have "MonotonicTimer_callback ts tsc mt = (if T \<le> x then mt\<lparr>valid := False\<rparr> else mt)"
    using assms(1,3) by (simp add: callback_measured x_def)
  ultimately show ?thesis unfolding e_def [symmetric] by (simp add: MonotonicTimer_getValid_def) linarith
qed

text \<open>
  A threshold that is not a number disables the check (every comparison with it is
  false), while a clock that has not advanced at all always invalidates the timer.
\<close>

theorem MonotonicTimer_callback_edge:
  "(getTime ts = startTime mt \<longrightarrow> \<not> MonotonicTimer_getValid (MonotonicTimer_callback ts tsc mt)) \<and>
   (getTime ts \<noteq> startTime mt \<and> deviationThreshold mt = NaN \<longrightarrow> MonotonicTimer_callback ts tsc mt = mt)"
  by (simp add: MonotonicTimer_callback_def MonotonicTimer_getValid_def Let_def)

section \<open>Concrete instances\<close>

text \<open>A 3000 MHz processor: \<open>time_mult / 2\<^sup>t\<^sup>i\<^sup>m\<^sup>e\<^sup>_\<^sup>s\<^sup>h\<^sup>i\<^sup>f\<^sup>t = 1/3\<close> ns per tick.\<close>

definition sample_cpu :: cpu where
  "sample_cpu = \<lparr>cpuid_max = 0x80000008, cpuid_edx = (\<lambda>_. Some (push_bit 27 1)),
                 cpuid_count_edx = (\<lambda>_ _. Some (push_bit 8 1))\<rparr>"

definition sample_perf :: perf where
  "sample_perf = \<lparr>perf_fd = 5, perf_page_size = 4096, perf_page = Some (31, 715827883)\<rparr>"

definition sample_timer :: monotonic_timer where
  "sample_timer = \<lparr>valid = True, deviationThreshold = Fin (1/1000), frequency = 3000,
     nsPerTickMultiplier = 1431655765, interval = 60000, periodic = Timer_init,
     startTime = 0, startTsc = 100\<rparr>"

theorem MonotonicTimer_get_mono_witness:
  "MonotonicTimer_get sample_timer 1000 \<le> MonotonicTimer_get sample_timer 2000"
  by (rule MonotonicTimer_get_mono) (simp_all add: sample_timer_def elapsed_ns_def)

theorem MonotonicTimer_get_not_strict_witness:
  "MonotonicTimer_get sample_timer 101 = MonotonicTimer_get sample_timer 100"
  using MonotonicTimer_get_not_strict [of sample_timer] by (simp add: sample_timer_def)

theorem MonotonicTimer_get_strict_witness:
  "MonotonicTimer_get (sample_timer\<lparr>nsPerTickMultiplier := 2 ^ 32\<rparr>) 1000
     < MonotonicTimer_get (sample_timer\<lparr>nsPerTickMultiplier := 2 ^ 32\<rparr>) 1001"
  by (rule MonotonicTimer_get_strict) (simp_all add: sample_timer_def elapsed_ns_def)

theorem MonotonicTimer_new_accurate_witness:
  "\<exists>mt. MonotonicTimer_new sample_cpu sample_perf (10, 5) 7 60000 (Fin (1/1000)) = Inr mt \<and> valid mt"
  using MonotonicTimer_new_accurate [of sample_cpu sample_perf 31 715827883 "(10, 5)" 7 60000 "Fin (1/1000)"]
  by (auto simp: sample_cpu_def sample_perf_def checkTsc_def)

theorem readFrequency_releases_witness:
  "readFrequency (sample_perf\<lparr>perf_page := None\<rparr>) = Some (0, [Close 5])"
  using readFrequency_releases [of "sample_perf\<lparr>perf_page := None\<rparr>" 0 "[Close 5]"]
  by (simp add: readFrequency_def sample_perf_def)

theorem MonotonicTimer_new_throws_witness:
  "MonotonicTimer_new (sample_cpu\<lparr>cpuid_count_edx := \<lambda>_ _. Some 0\<rparr>) sample_perf (10, 5) 7 60000 NaN = Inl StdException"
  using MonotonicTimer_new_throws [of "sample_cpu\<lparr>cpuid_count_edx := \<lambda>_ _. Some 0\<rparr>" sample_perf]
  by (simp add: invariant_tsc_def)

theorem MonotonicTimer_callback_latch_witness:
  "\<not> MonotonicTimer_getValid (MonotonicTimer_callback (1, 0) 3000000100 (sample_timer\<lparr>valid := False\<rparr>))"
  using MonotonicTimer_callback_latch [of "(1, 0)" 3000000100 "sample_timer\<lparr>valid := False\<rparr>"]
  by (simp add: MonotonicTimer_getValid_def)

lemma sample_timer_readings:
  "getTime (1, 0) \<noteq> startTime sample_timer" "1 / 2 ^ 100 \<le> frequency sample_timer"
  "deviationThreshold sample_timer = Fin (1/1000)"
  "3000 = exact_frequency (3000000100 - startTsc sample_timer) (getTime (1, 0) - startTime sample_timer)"
  "6000 = exact_frequency (6000000100 - startTsc sample_timer) (getTime (1, 0) - startTime sample_timer)"
  "0 = \<bar>frequency sample_timer - 3000\<bar> / frequency sample_timer"
  "1 = \<bar>frequency sample_timer - 6000\<bar> / frequency sample_timer"
  by (simp_all add: sample_timer_def getTime_def exact_frequency_def)

theorem MonotonicTimer_callback_detects_witness:
  "\<not> MonotonicTimer_getValid (MonotonicTimer_callback (1, 0) 6000000100 sample_timer) \<and>
   MonotonicTimer_callback (1, 0) 3000000100 sample_timer = sample_timer"
proof (rule conjI)
  show "\<not> MonotonicTimer_getValid (MonotonicTimer_callback (1, 0) 6000000100 sample_timer)"
    by (rule MonotonicTimer_callback_detects [OF sample_timer_readings(1,2,3,5,7), THEN conjunct1, rule_format])
      (simp add: sample_timer_def)
  show "MonotonicTimer_callback (1, 0) 3000000100 sample_timer = sample_timer"
    by (rule MonotonicTimer_callback_detects [OF sample_timer_readings(1,2,3,4,6), THEN conjunct2, rule_format])
      (simp add: sample_timer_def)
qed

theorem MonotonicTimer_callback_edge_witness:
  "\<not> MonotonicTimer_getValid (MonotonicTimer_callback (0, 0) 6000000100 sample_timer)"
  using MonotonicTimer_callback_edge [of "(0, 0)" sample_timer] by (simp add: sample_timer_def getTime_def)

end
