(* ===== verification/TPMWatcher.thy ===== *)
theory TPMWatcher
  imports MonotonicTimer
begin

unbundle bit_operations_syntax

text \<open>
  \<open>src/src/tpmwatcher.cpp\<close>: the cached device ID. The TPM software stack is a parameter, a
  record with the answer of each call that \<open>update\<close> makes; the numeric values of its
  constants are not known here, so algorithms and attributes are names. Beside its result
  \<open>update\<close> returns the sequence of resource events it caused.
\<close>

section \<open>The key template\<close>

datatype tpm_alg = TPM2_ALG_RSA | TPM2_ALG_SHA256 | TPM2_ALG_AES | TPM2_ALG_CFB | TPM2_ALG_NULL

datatype tpm_attribute =
    TPMA_OBJECT_FIXEDTPM | TPMA_OBJECT_FIXEDPARENT | TPMA_OBJECT_SENSITIVEDATAORIGIN
  | TPMA_OBJECT_ADMINWITHPOLICY | TPMA_OBJECT_RESTRICTED | TPMA_OBJECT_DECRYPT

record tpm2b_public =
  pub_type :: tpm_alg
  nameAlg :: tpm_alg
  objectAttributes :: "tpm_attribute set"
  authPolicy_size :: nat
  authPolicy_buffer :: bytes
  symmetric_algorithm :: tpm_alg
  symmetric_keyBits :: nat
  symmetric_mode :: tpm_alg
  scheme :: tpm_alg
  keyBits :: nat
  exponent :: nat
  unique_size :: nat
  unique_buffer :: bytes

definition authPolicyBuffer :: bytes where
  "authPolicyBuffer =
     [0x83, 0x71, 0x97, 0x67, 0x44, 0x84, 0xb3, 0xf8,
      0x1a, 0x90, 0xcc, 0x8d, 0x46, 0xa5, 0xd7, 0x24,
      0xfd, 0x52, 0xd7, 0x6e, 0x06, 0x52, 0x0b, 0x64,
      0xf2, 0xa1, 0xda, 0x1b, 0x33, 0x14, 0x69, 0xaa]"

definition inPublic :: tpm2b_public where
  "inPublic =
     \<lparr>pub_type = TPM2_ALG_RSA, nameAlg = TPM2_ALG_SHA256,
      objectAttributes = {TPMA_OBJECT_FIXEDTPM, TPMA_OBJECT_FIXEDPARENT, TPMA_OBJECT_SENSITIVEDATAORIGIN,
        TPMA_OBJECT_ADMINWITHPOLICY, TPMA_OBJECT_RESTRICTED, TPMA_OBJECT_DECRYPT},
      authPolicy_size = 32, authPolicy_buffer = map (\<lambda>i. authPolicyBuffer ! i) [0..<32],
      symmetric_algorithm = TPM2_ALG_AES, symmetric_keyBits = 128, symmetric_mode = TPM2_ALG_CFB,
      scheme = TPM2_ALG_NULL, keyBits = 2048, exponent = 0,
      unique_size = 256, unique_buffer = replicate 256 0\<rparr>"

section \<open>State and environment\<close>

definition deviceIDLength :: nat where
  "deviceIDLength = 16"

record tpm_watcher =
  watch_timer :: timer
  intervalInMs :: u32
  deviceID :: bytes
  lastUpdated :: u64

text \<open>
  The objects that \<open>Esys_CreatePrimary\<close> and \<open>Esys_ReadPublic\<close> allocate; a flag says whether
  the output pointer is non-null after the call. The name is read through its pointer, so
  its bytes are given.
\<close>

record tpm =
  rc_success :: u32
  tcti_rc :: u32
  esys_rc :: u32
  create_primary :: "tpm2b_public \<Rightarrow> u32 \<times> bool \<times> bool \<times> bool \<times> bool"
  read_public :: "u32 \<times> bytes option \<times> bool"

datatype tpm_object = EkName | EkQualifiedName | OutPublic | CreationData | CreationHash | CreationTicket

datatype tpm_resource = TctiContext | EsysContext | EkHandle | Object tpm_object

datatype tpm_event = Acquire tpm_resource | Release tpm_resource | LogError string

section \<open>Operations\<close>

definition TPMWatcher_new :: "u32 \<Rightarrow> tpm_watcher" where
  "TPMWatcher_new itv =
     \<lparr>watch_timer = Timer_init, intervalInMs = itv, deviceID = replicate deviceIDLength 0, lastUpdated = 0\<rparr>"

definition TPMWatcher_get :: "tpm_watcher \<Rightarrow> bytes" where
  "TPMWatcher_get w = take deviceIDLength (deviceID w)"

definition TPMWatcher_getLastUpdated :: "tpm_watcher \<Rightarrow> u64" where
  "TPMWatcher_getLastUpdated w = lastUpdated w"

text \<open>The macro \<open>FREE_TPM_RESOURCE\<close>.\<close>

definition free_tpm_resource :: "tpm_object \<Rightarrow> bool \<Rightarrow> tpm_event list" where
  "free_tpm_resource obj nonnull = (if nonnull then [Release (Object obj)] else [])"

definition acquire_object :: "tpm_object \<Rightarrow> bool \<Rightarrow> tpm_event list" where
  "acquire_object obj nonnull = (if nonnull then [Acquire (Object obj)] else [])"

text \<open>The outputs of \<open>Esys_CreatePrimary\<close>, whether it has succeeded or not.\<close>

definition created :: "bool \<Rightarrow> bool \<Rightarrow> bool \<Rightarrow> bool \<Rightarrow> tpm_event list" where
  "created outPublic creationData creationHash creationTicket =
     acquire_object OutPublic outPublic @ acquire_object CreationData creationData @
     acquire_object CreationHash creationHash @ acquire_object CreationTicket creationTicket"

text \<open>The clean-up sequence, which the source repeats on each of the last three exits.\<close>

definition cleanup :: "bool \<Rightarrow> bool \<Rightarrow> bool \<Rightarrow> bool \<Rightarrow> bool \<Rightarrow> bool \<Rightarrow> tpm_event list" where
  "cleanup ekName ekQualifiedName outPublic creationData creationHash creationTicket =
     free_tpm_resource EkName ekName @ free_tpm_resource EkQualifiedName ekQualifiedName @
     [Release EkHandle] @
     free_tpm_resource OutPublic outPublic @ free_tpm_resource CreationData creationData @
     free_tpm_resource CreationHash creationHash @ free_tpm_resource CreationTicket creationTicket @
     [Release EsysContext, Release TctiContext]"

text \<open>
  The name of the endorsement key is cut after an optional SHA-256 prefix and folded.
\<close>

definition dataOffset :: "bytes \<Rightarrow> nat" where
  "dataOffset nameData =
     (if 2 \<le> length nameData \<and> nameData ! 0 = 0x00 \<and> nameData ! 1 = 0x0B then 2 else 0)"

definition fold_id :: "bytes \<Rightarrow> bytes" where
  "fold_id sourceData = map (\<lambda>i. sourceData ! i XOR sourceData ! (i + 16)) [0..<16]"

text \<open>
  \<open>update\<close>; \<open>mt\<close> and \<open>tsc\<close> are the time source and its reading inside the critical section.
  \<open>None\<close> is the undefined behaviour of reading through a null \<open>ekName\<close>.
\<close>

definition TPMWatcher_update ::
    "tpm \<Rightarrow> monotonic_timer \<Rightarrow> u64 \<Rightarrow> tpm_watcher \<Rightarrow> (bool \<times> tpm_watcher \<times> tpm_event list) option" where
  "TPMWatcher_update env mt tsc w =
     (if tcti_rc env \<noteq> rc_success env
      then Some (False, w, [LogError ''Tss2_TctiLdr_Initialize(device:/dev/tpmrm0)''])
      else if esys_rc env \<noteq> rc_success env
      then Some (False, w, [Acquire TctiContext, LogError ''Esys_Initialize'', Release TctiContext])
      else
        let (rc, outPublic, creationData, creationHash, creationTicket) = create_primary env inPublic;
            ev1 = [Acquire TctiContext, Acquire EsysContext]
        in if rc \<noteq> rc_success env
           then Some (False, w, ev1 @ created outPublic creationData creationHash creationTicket @
             [LogError ''Esys_CreatePrimary'', Release EsysContext, Release TctiContext])
           else
             let (rc, ekName, ekQualifiedName) = read_public env;
                 ev2 = ev1 @ [Acquire EkHandle] @ created outPublic creationData creationHash creationTicket @
                   acquire_object EkName (ekName \<noteq> None) @ acquire_object EkQualifiedName ekQualifiedName;
                 clean = cleanup (ekName \<noteq> None) ekQualifiedName outPublic creationData creationHash creationTicket
             in if rc \<noteq> rc_success env
                then Some (False, w, ev2 @ [LogError ''Esys_ReadPublic''] @ clean)
                else case ekName of
                  None \<Rightarrow> None
                | Some nameData \<Rightarrow>
                    let offset = dataOffset nameData in
                    if length nameData - offset < 32
                    then Some (False, w,
                      ev2 @ [LogError ''Insufficient data in TPM2B_NAME for UUID generation''] @ clean)
                    else Some (True,
                      w\<lparr>deviceID := fold_id (drop offset nameData),
                        lastUpdated := MonotonicTimer_get mt tsc\<rparr>,
                      ev2 @ clean))"

text \<open>
  \<open>start\<close> updates once in the calling thread and arms the periodic timer only if this has
  succeeded.
\<close>

definition TPMWatcher_start ::
    "tpm \<Rightarrow> monotonic_timer \<Rightarrow> u64 \<Rightarrow> tpm_watcher \<Rightarrow> (bool \<times> tpm_watcher \<times> tpm_event list) option" where
  "TPMWatcher_start env mt tsc w =
     (case TPMWatcher_update env mt tsc w of
        None \<Rightarrow> None
      | Some (ok, w', ev) \<Rightarrow>
          if \<not> ok then Some (False, w', ev)
          else case Timer_start (watch_timer w') of
                 None \<Rightarrow> None
               | Some t \<Rightarrow> Some (True, w'\<lparr>watch_timer := t\<rparr>, ev))"

text \<open>
  Updates that the timer thread makes one after the other, each with the answers of the TPM and
  the reading of the time source; their result is not used.
\<close>

fun TPMWatcher_updates :: "monotonic_timer \<Rightarrow> (tpm \<times> u64) list \<Rightarrow> tpm_watcher \<Rightarrow> tpm_watcher option" where
  "TPMWatcher_updates mt [] w = Some w"
| "TPMWatcher_updates mt ((env, tsc) # answers) w =
     (case TPMWatcher_update env mt tsc w of
        None \<Rightarrow> None
      | Some (_, w', _) \<Rightarrow> TPMWatcher_updates mt answers (w'\<lparr>watch_timer := worker_period (watch_timer w')\<rparr>))"

section \<open>The device ID\<close>

definition watcher_inv :: "tpm_watcher \<Rightarrow> bool" where
  "watcher_inv w \<longleftrightarrow> length (deviceID w) = deviceIDLength"

lemma length_fold_id [simp]: "length (fold_id xs) = 16"
  by (simp add: fold_id_def)

lemma fold_id_map2:
  assumes "32 \<le> length xs"
  shows "fold_id xs = map2 (XOR) (take 16 xs) (take 16 (drop 16 xs))"
  using assms by (intro nth_equalityI) (simp_all add: fold_id_def add.commute)

lemma fold_id_append:
  "length a = 16 \<Longrightarrow> length b = 16 \<Longrightarrow> fold_id (a @ b @ rest) = map2 (XOR) a b"
  by (simp add: fold_id_map2)

lemma watcher_inv_new: "watcher_inv (TPMWatcher_new itv)"
  by (simp add: watcher_inv_def TPMWatcher_new_def)

lemmas update_splits = if_splits option.splits prod.splits

lemma update_cases:
  assumes "TPMWatcher_update env mt tsc w = Some (ok, w', ev)"
  shows "if ok then (\<exists>name q. read_public env = (rc_success env, Some name, q) \<and>
              32 + dataOffset name \<le> length name \<and>
              w' = w\<lparr>deviceID := fold_id (drop (dataOffset name) name), lastUpdated := MonotonicTimer_get mt tsc\<rparr>)
         else w' = w"
  using assms by (auto simp: TPMWatcher_update_def Let_def split: update_splits)

lemma watcher_inv_update:
  assumes "watcher_inv w" and "TPMWatcher_update env mt tsc w = Some (ok, w', ev)"
  shows "watcher_inv w'"
  using update_cases [OF assms(2)] assms(1)
  by (auto simp: watcher_inv_def deviceIDLength_def split: if_splits)

lemma watcher_inv_start:
  assumes "watcher_inv w" and "TPMWatcher_start env mt tsc w = Some (ok, w', ev)"
  shows "watcher_inv w'"
proof -
  obtain ok1 w1 ev1 where u: "TPMWatcher_update env mt tsc w = Some (ok1, w1, ev1)"
    using assms(2) by (auto simp: TPMWatcher_start_def split: option.splits)
  have "watcher_inv w1" using assms(1) u by (rule watcher_inv_update)
  with u assms(2) show ?thesis
    by (auto simp: TPMWatcher_start_def watcher_inv_def split: update_splits)
qed

text \<open>
  What the users of the watcher rely on: under its invariant it hands out IDs of one length,
  so that a checksum masked with the ID can be unmasked.
\<close>

locale device_identity =
  fixes inv :: "'w \<Rightarrow> bool"
    and get_id :: "'w \<Rightarrow> bytes"
    and id_length :: nat
  assumes get_id_length: "inv w \<Longrightarrow> length (get_id w) = id_length"
begin

lemma unmask: "inv w \<Longrightarrow> length md = id_length \<Longrightarrow> map2 (XOR) (map2 (XOR) md (get_id w)) md = get_id w"
  by (simp add: map2_xor_cancel get_id_length)

lemma mask_length: "inv w \<Longrightarrow> length md = id_length \<Longrightarrow> length (map2 (XOR) md (get_id w)) = id_length"
  by (simp add: get_id_length)

end

interpretation watcher_id: device_identity watcher_inv TPMWatcher_get deviceIDLength
  by unfold_locales (simp add: watcher_inv_def TPMWatcher_get_def)

lemma update_folded:
  assumes "TPMWatcher_update env mt tsc w = Some (ok, w', ev)"
  shows "(ok \<longrightarrow> (\<exists>name q a b rest. read_public env = (rc_success env, Some name, q) \<and>
             drop (dataOffset name) name = a @ b @ rest \<and> length a = 16 \<and> length b = 16 \<and>
             TPMWatcher_get w' = map2 (XOR) a b \<and>
             TPMWatcher_getLastUpdated w' = MonotonicTimer_get mt tsc)) \<and>
         (\<not> ok \<longrightarrow> w' = w)"
proof (cases ok)
  case True
  with update_cases [OF assms] obtain name q where
    rp: "read_public env = (rc_success env, Some name, q)" and len: "32 + dataOffset name \<le> length name"
    and w': "w' = w\<lparr>deviceID := fold_id (drop (dataOffset name) name), lastUpdated := MonotonicTimer_get mt tsc\<rparr>"
    by auto
  let ?d = "drop (dataOffset name) name"
  have "?d = take 16 ?d @ take 16 (drop 16 ?d) @ drop (16 + 16) ?d" by (rule split_at2)
  moreover have "fold_id ?d = map2 (XOR) (take 16 ?d) (take 16 (drop 16 ?d))"
    using len by (intro fold_id_map2) simp
  ultimately show ?thesis
    using True rp len w'
    by (intro conjI impI exI [of _ name] exI [of _ q] exI [of _ "take 16 ?d"]
        exI [of _ "take 16 (drop 16 ?d)"] exI [of _ "drop (16 + 16) ?d"])
      (simp_all only: TPMWatcher_get_def TPMWatcher_getLastUpdated_def deviceIDLength_def tpm_watcher.simps,
        simp_all)
next
  case False
  with update_cases [OF assms] show ?thesis by simp
qed

text \<open>
  C17: an update of the cached device ID is all or nothing. It reports success only when the
  TPM returned a key name with at least 32 bytes after the optional SHA-256 prefix, and then
  the cache holds the first half of these 32 bytes XORed with the second half together with
  the time of the update; on every failure the cache is unchanged.
\<close>

theorem TPMWatcher_update_correct:
  assumes "TPMWatcher_update env mt tsc w = Some (ok, w', ev)"
  shows "(ok \<longrightarrow> (\<exists>name q a b rest. read_public env = (rc_success env, Some name, q) \<and>
             drop (dataOffset name) name = a @ b @ rest \<and> length a = 16 \<and> length b = 16 \<and>
             TPMWatcher_get w' = map2 (XOR) a b \<and>
             TPMWatcher_getLastUpdated w' = MonotonicTimer_get mt tsc)) \<and>
         (\<not> ok \<longrightarrow> w' = w)"
  using assms by (rule update_folded)

text \<open>A watcher whose ID has been derived from one of the given TPM answers.\<close>

definition id_from :: "monotonic_timer \<Rightarrow> (tpm \<times> u64) list \<Rightarrow> tpm_watcher \<Rightarrow> bool" where
  "id_from mt answers w \<longleftrightarrow> (\<exists>(env, tsc) \<in> set answers. \<exists>name q a b rest.
     read_public env = (rc_success env, Some name, q) \<and>
     drop (dataOffset name) name = a @ b @ rest \<and> length a = 16 \<and> length b = 16 \<and>
     TPMWatcher_get w = map2 (XOR) a b \<and> TPMWatcher_getLastUpdated w = MonotonicTimer_get mt tsc)"

lemma id_from_mono: "id_from mt answers w \<Longrightarrow> set answers \<subseteq> set answers' \<Longrightarrow> id_from mt answers' w"
  unfolding id_from_def by blast

lemma id_from_timer [simp]: "id_from mt answers (w\<lparr>watch_timer := t\<rparr>) = id_from mt answers w"
  by (simp add: id_from_def TPMWatcher_get_def TPMWatcher_getLastUpdated_def)

lemma id_from_update:
  assumes "TPMWatcher_update env mt tsc w = Some (ok, w', ev)" and "ok \<or> id_from mt answers w"
  shows "id_from mt (answers @ [(env, tsc)]) w'"
proof (cases ok)
  case True
  with update_folded [OF assms(1)] show ?thesis unfolding id_from_def by fastforce
next
  case False
  with update_folded [OF assms(1)] assms(2) show ?thesis by (auto intro: id_from_mono)
qed

lemma TPMWatcher_updates_id:
  assumes "TPMWatcher_updates mt answers w = Some w'" and "id_from mt first w"
  shows "id_from mt (first @ answers) w'"
  using assms
proof (induction mt answers w arbitrary: first rule: TPMWatcher_updates.induct)
  case (2 mt env tsc answers w)
  then obtain ok w1 ev where u: "TPMWatcher_update env mt tsc w = Some (ok, w1, ev)"
    by (auto split: option.splits)
  with "2.prems" have "id_from mt (first @ [(env, tsc)]) w1" by (blast intro: id_from_update)
  with 2 u show ?case by fastforce
qed simp

lemma TPMWatcher_updates_timer:
  assumes "TPMWatcher_updates mt answers w = Some w'"
  shows "watch_timer w' = (worker_period ^^ length answers) (watch_timer w)"
  using assms
proof (induction mt answers w rule: TPMWatcher_updates.induct)
  case (2 mt env tsc answers w)
  then obtain ok w1 ev where u: "TPMWatcher_update env mt tsc w = Some (ok, w1, ev)"
    by (auto split: option.splits)
  then have "watch_timer w1 = watch_timer w" using update_cases [OF u] by (auto split: if_splits)
  with 2 u show ?case by (simp add: funpow_swap1)
qed simp

lemma watcher_inv_updates:
  assumes "TPMWatcher_updates mt answers w = Some w'" and "watcher_inv w"
  shows "watcher_inv w'"
  using assms
proof (induction mt answers w rule: TPMWatcher_updates.induct)
  case (2 mt env tsc answers w)
  then obtain ok w1 ev where u: "TPMWatcher_update env mt tsc w = Some (ok, w1, ev)"
    by (auto split: option.splits)
  with "2.prems" have "watcher_inv w1" by (blast intro: watcher_inv_update)
  with 2 u show ?case by (simp add: watcher_inv_def)
qed simp

text \<open>
  The algorithm prefix does not matter: a 32-byte hash that does not itself start with
  \<open>00 0B\<close> gives the same device ID with and without the prefix.
\<close>

theorem device_id_prefix_independent:
  assumes "length h = 32" and "take 2 h \<noteq> [0x00, 0x0B]"
  shows "fold_id (drop (dataOffset ([0x00, 0x0B] @ h)) ([0x00, 0x0B] @ h)) = fold_id (drop (dataOffset h) h)"
proof -
  obtain a b t where "h = a # b # t" using assms(1) by (cases h; cases "tl h") auto
  with assms(2) show ?thesis by (auto simp: dataOffset_def)
qed

section \<open>Resources of the TPM stack\<close>

text \<open>
  A ledger of the held resources: acquiring one twice, or giving back one that is not held,
  is \<open>None\<close>.
\<close>

fun ledger :: "tpm_resource set \<Rightarrow> tpm_event list \<Rightarrow> tpm_resource set option" where
  "ledger held [] = Some held"
| "ledger held (Acquire r # es) = (if r \<in> held then None else ledger (insert r held) es)"
| "ledger held (Release r # es) = (if r \<in> held then ledger (held - {r}) es else None)"
| "ledger held (LogError _ # es) = ledger held es"

lemma ledger_append: "ledger held (es @ es') = Option.bind (ledger held es) (\<lambda>h. ledger h es')"
  by (induction held es rule: ledger.induct) auto

definition created_objects :: "bool \<Rightarrow> bool \<Rightarrow> bool \<Rightarrow> bool \<Rightarrow> tpm_resource set" where
  "created_objects outPublic creationData creationHash creationTicket =
     Object ` {obj. obj = OutPublic \<and> outPublic \<or> obj = CreationData \<and> creationData \<or>
       obj = CreationHash \<and> creationHash \<or> obj = CreationTicket \<and> creationTicket}"

lemma ledger_created:
  assumes "held \<inter> range Object = {}"
  shows "ledger held (created p1 p2 p3 p4) = Some (held \<union> created_objects p1 p2 p3 p4)"
proof -
  have "Object obj \<notin> held" for obj using assms by blast
  then show ?thesis
    by (cases p1; cases p2; cases p3; cases p4)
      (auto simp: created_def acquire_object_def created_objects_def)
qed

text \<open>
  What the library does on a failure of \<open>Esys_CreatePrimary\<close>: it frees the outputs it may have
  allocated and sets the pointers back to null.
\<close>

definition create_primary_clean :: "tpm \<Rightarrow> bool" where
  "create_primary_clean env =
     (case create_primary env inPublic of (rc, outPublic, creationData, creationHash, creationTicket) \<Rightarrow>
        rc = rc_success env \<or> (\<not> outPublic \<and> \<not> creationData \<and> \<not> creationHash \<and> \<not> creationTicket))"

text \<open>
  C30: no TPM resource leaks and none is freed twice: on every exit of \<open>update\<close> the events
  acquire each resource at most once and give back exactly the ones acquired, whatever the TPM
  stack answers, if a failing \<open>Esys_CreatePrimary\<close> leaves its output pointers null. Without
  this, no resource is freed twice either, and what leaks is at most these four outputs.
\<close>

theorem TPMWatcher_update_releases:
  assumes "TPMWatcher_update env mt tsc w = Some (ok, w', ev)"
  shows "(create_primary_clean env \<longrightarrow> ledger {} ev = Some {}) \<and>
    (\<exists>lost \<subseteq> Object ` {OutPublic, CreationData, CreationHash, CreationTicket}. ledger {} ev = Some lost)"
proof -
  obtain rc p1 p2 p3 p4 where cp: "create_primary env inPublic = (rc, p1, p2, p3, p4)"
    by (cases "create_primary env inPublic") auto
  obtain rc' n q where rp: "read_public env = (rc', n, q)" by (cases "read_public env") auto
  show ?thesis
  proof (cases "tcti_rc env = rc_success env \<and> esys_rc env = rc_success env \<and> rc \<noteq> rc_success env")
    case True
    then have "ev = [Acquire TctiContext, Acquire EsysContext] @ created p1 p2 p3 p4 @
        [LogError ''Esys_CreatePrimary'', Release EsysContext, Release TctiContext]"
      using assms cp by (simp add: TPMWatcher_update_def)
    moreover have "ledger {EsysContext, TctiContext} (created p1 p2 p3 p4) =
        Some ({EsysContext, TctiContext} \<union> created_objects p1 p2 p3 p4)"
      by (rule ledger_created) auto
    moreover have "EsysContext \<notin> created_objects p1 p2 p3 p4" "TctiContext \<notin> created_objects p1 p2 p3 p4"
      by (auto simp: created_objects_def)
    ultimately have "ledger {} ev = Some (created_objects p1 p2 p3 p4)"
      by (simp add: ledger_append insert_Diff_if)
    moreover have "create_primary_clean env \<Longrightarrow> created_objects p1 p2 p3 p4 = {}"
      using True cp by (simp add: create_primary_clean_def created_objects_def)
    moreover have "created_objects p1 p2 p3 p4 \<subseteq> Object ` {OutPublic, CreationData, CreationHash, CreationTicket}"
      by (auto simp: created_objects_def)
    ultimately show ?thesis by auto
  next
    case False
    then have "ledger {} ev = Some {}"
      using assms cp rp
      by (auto simp: TPMWatcher_update_def Let_def cleanup_def free_tpm_resource_def acquire_object_def created_def
          insert_Diff_if split: option.splits if_splits)
    then show ?thesis by auto
  qed
qed

text \<open>
  \<open>start\<close> arms the periodic timer if and only if the first update has succeeded; so a
  watcher that reports success holds an ID derived from the TPM, and one that fails is
  exactly as constructed.
\<close>

theorem TPMWatcher_start_armed:
  assumes "TPMWatcher_start env mt tsc (TPMWatcher_new itv) = Some (ok, w', ev)"
  shows "(ok \<longleftrightarrow> worker (watch_timer w') = Locking) \<and>
         (ok \<longrightarrow> (\<exists>w1. TPMWatcher_update env mt tsc (TPMWatcher_new itv) = Some (True, w1, ev) \<and>
            TPMWatcher_get w' = TPMWatcher_get w1 \<and>
            TPMWatcher_getLastUpdated w' = MonotonicTimer_get mt tsc)) \<and>
         (\<not> ok \<longrightarrow> w' = TPMWatcher_new itv)"
proof -
  obtain ok1 w1 where u: "TPMWatcher_update env mt tsc (TPMWatcher_new itv) = Some (ok1, w1, ev)"
    using assms by (auto simp: TPMWatcher_start_def split: option.splits if_splits)
  from assms u update_cases [OF u] show ?thesis
    by (auto simp: TPMWatcher_start_def Timer_start_def TPMWatcher_new_def Timer_init_def
        TPMWatcher_get_def TPMWatcher_getLastUpdated_def split: if_splits)
qed

section \<open>A concrete TPM\<close>

text \<open>A TPM whose key name is the SHA-256 prefix and the bytes 1 to 32.\<close>

definition sample_name :: bytes where
  "sample_name = [0x00, 0x0B] @ map (\<lambda>i. of_nat (Suc i)) [0..<32]"

definition sample_tpm :: tpm where
  "sample_tpm = \<lparr>rc_success = 0, tcti_rc = 0, esys_rc = 0,
     create_primary = (\<lambda>_. (0, True, True, True, True)), read_public = (0, Some sample_name, True)\<rparr>"

definition sample_watcher :: tpm_watcher where
  "sample_watcher = (TPMWatcher_new 60000)\<lparr>
     deviceID := fold_id (drop 2 sample_name), lastUpdated := MonotonicTimer_get sample_timer 1000\<rparr>"

definition sample_events :: "tpm_event list" where
  "sample_events = map Acquire [TctiContext, EsysContext, EkHandle, Object OutPublic, Object CreationData,
       Object CreationHash, Object CreationTicket, Object EkName, Object EkQualifiedName] @
     map Release [Object EkName, Object EkQualifiedName, EkHandle, Object OutPublic, Object CreationData,
       Object CreationHash, Object CreationTicket, EsysContext, TctiContext]"

lemma sample_name_facts: "dataOffset sample_name = 2" "length sample_name = 34"
  by (simp_all add: dataOffset_def sample_name_def)

lemma sample_update:
  "TPMWatcher_update sample_tpm sample_timer 1000 (TPMWatcher_new 60000) = Some (True, sample_watcher, sample_events)"
  by (simp add: TPMWatcher_update_def sample_tpm_def sample_name_facts cleanup_def free_tpm_resource_def
      acquire_object_def created_def sample_watcher_def sample_events_def)

theorem TPMWatcher_update_correct_witness:
  "TPMWatcher_getLastUpdated sample_watcher = MonotonicTimer_get sample_timer 1000"
  using TPMWatcher_update_correct [OF sample_update] by blast

theorem device_id_prefix_independent_witness:
  "fold_id (drop (dataOffset ([0x00, 0x0B] @ replicate 32 7)) ([0x00, 0x0B] @ replicate 32 7)) =
   fold_id (drop (dataOffset (replicate 32 7)) (replicate 32 7))"
proof (rule device_id_prefix_independent)
  have "take 2 (replicate 32 7) = [7, 7 :: u8]" by code_simp
  then show "take 2 (replicate 32 7 :: bytes) \<noteq> [0x00, 0x0B]" by simp
qed simp

theorem TPMWatcher_update_releases_witness: "ledger {} sample_events = Some {}"
  using TPMWatcher_update_releases [OF sample_update] by (simp add: create_primary_clean_def sample_tpm_def)

theorem TPMWatcher_start_armed_witness:
  "worker (watch_timer (sample_watcher\<lparr>watch_timer := Timer_init\<lparr>worker := Locking\<rparr>\<rparr>)) = Locking"
proof -
  have "TPMWatcher_start sample_tpm sample_timer 1000 (TPMWatcher_new 60000) =
      Some (True, sample_watcher\<lparr>watch_timer := Timer_init\<lparr>worker := Locking\<rparr>\<rparr>, sample_events)"
    unfolding TPMWatcher_start_def sample_update
    by (simp add: Timer_start_def sample_watcher_def TPMWatcher_new_def Timer_init_def)
  from TPMWatcher_start_armed [OF this] show ?thesis by blast
qed

end
