(* ===== verification/MessageBuilder.thy ===== *)
theory MessageBuilder
  imports Auxiliary TPMWatcher
begin

unbundle bit_operations_syntax

text \<open>
  \<open>src/src/messagebuilder.cpp\<close>: the answer to one query. The buffers of the caller are byte
  lists; every access through a pointer is a checked access of the prelude, so \<open>None\<close> is a
  read or write outside a buffer. The C++ \<open>int\<close> parameter \<open>querySize\<close> is its 32-bit pattern:
  the source compares it with unsigned operands only. MD5 of OpenSSL is the parameter
  \<open>evp\<close>: \<open>None\<close> when \<open>EVP_Q_digest\<close> fails, otherwise the digest it wrote.
\<close>

section \<open>Constants\<close>

definition HEADER_SIZE :: u32 where [size_consts]: "HEADER_SIZE = 22"
definition MIN_MSG_SIZE :: u32 where [size_consts]: "MIN_MSG_SIZE = 38"
definition MAX_MSG_SIZE :: u32 where [size_consts]: "MAX_MSG_SIZE = 32768"
definition CHECKSUM_SIZE :: u32 where [size_consts]: "CHECKSUM_SIZE = 16"
definition MIN_TLV_SIZE :: u32 where [size_consts]: "MIN_TLV_SIZE = 2"

definition MAGIC_TAG :: u8 where [simp]: "MAGIC_TAG = 0x00"
definition VERSION_TAG :: u8 where [simp]: "VERSION_TAG = 0x01"
definition MESSAGE_TYPE_TAG :: u8 where [simp]: "MESSAGE_TYPE_TAG = 0x02"
definition MESSAGE_FLAGS_TAG :: u8 where [simp]: "MESSAGE_FLAGS_TAG = 0x03"

definition USER_DATA_QTAG :: u8 where [simp]: "USER_DATA_QTAG = 0x04"
definition DEVICEID_QTAG :: u8 where [simp]: "DEVICEID_QTAG = 0x91"
definition TIMER_RX_QTAG :: u8 where [simp]: "TIMER_RX_QTAG = 0x92"
definition TIMER_TX_QTAG :: u8 where [simp]: "TIMER_TX_QTAG = 0x93"
definition DEVICEID_LAST_UPDATED_QTAG :: u8 where [simp]: "DEVICEID_LAST_UPDATED_QTAG = 0x94"

definition USER_DATA_RTAG :: u8 where [simp]: "USER_DATA_RTAG = 0x05"
definition DEVICEID_RTAG :: u8 where [simp]: "DEVICEID_RTAG = 0x11"
definition TIMER_RX_RTAG :: u8 where [simp]: "TIMER_RX_RTAG = 0x12"
definition TIMER_TX_RTAG :: u8 where [simp]: "TIMER_TX_RTAG = 0x13"
definition DEVICEID_LAST_UPDATED_RTAG :: u8 where [simp]: "DEVICEID_LAST_UPDATED_RTAG = 0x14"

definition MAGIC_LENGTH :: u8 where [simp]: "MAGIC_LENGTH = 0x04"
definition VERSION_LENGTH :: u8 where [simp]: "VERSION_LENGTH = 0x04"
definition MESSAGE_TYPE_LENGTH :: u8 where [simp]: "MESSAGE_TYPE_LENGTH = 0x01"
definition MESSAGE_FLAGS_LENGTH :: u8 where [simp]: "MESSAGE_FLAGS_LENGTH = 0x01"

definition MAGIC_BYTES :: bytes where [simp]: "MAGIC_BYTES = [0x4E, 0x48, 0x41, 0x31]"
definition VERSION_BYTES :: bytes where [simp]: "VERSION_BYTES = [0x00, 0x00, 0x00, 0x01]"
definition MESSAGE_TYPE_STANDARD_MESSAGE :: u8 where [simp]: "MESSAGE_TYPE_STANDARD_MESSAGE = 0x01"

text \<open>The values of the enumeration \<open>MsgFlags\<close>.\<close>

definition Flags_None :: u8 where [simp]: "Flags_None = 0x00"
definition HAS_CHECKSUM_XOR_DEVICE_ID :: u8 where [simp]: "HAS_CHECKSUM_XOR_DEVICE_ID = 0x01"
definition REPLY_CHECKSUM_XOR_DEVICE_ID :: u8 where [simp]: "REPLY_CHECKSUM_XOR_DEVICE_ID = 0x02"

section \<open>Integer and checksum helpers\<close>

definition fromLE32 :: "bytes \<Rightarrow> u32" where
  "fromLE32 array = ucast (array ! 0) OR push_bit 8 (ucast (array ! 1)) OR
     push_bit 16 (ucast (array ! 2)) OR push_bit 24 (ucast (array ! 3))"

definition toLE64 :: "u64 \<Rightarrow> bytes" where
  "toLE64 num = map (\<lambda>i. ucast (drop_bit (8 * i) num AND 0xff)) [0..<8]"

type_synonym digest = "bytes \<Rightarrow> bytes option"

definition computeMD5 :: "digest \<Rightarrow> bytes \<Rightarrow> bytes option" where
  "computeMD5 evp dat =
     (case evp dat of
        None \<Rightarrow> None
      | Some md \<Rightarrow> if unat CHECKSUM_SIZE \<noteq> length md then None else Some md)"

section \<open>The header of the query\<close>

text \<open>
  A chain of comparisons of consecutive bytes that stops at the first difference.
\<close>

fun match_bytes :: "bytes \<Rightarrow> nat \<Rightarrow> bytes \<Rightarrow> bool option" where
  "match_bytes q p [] = Some True"
| "match_bytes q p (e # es) = do { v \<leftarrow> rd q p; if v \<noteq> e then Some False else match_bytes q (Suc p) es }"

text \<open>\<open>if (!cond) return -1;\<close> the inner \<open>None\<close> is the early return.\<close>

definition require :: "bool option \<Rightarrow> 'a option option \<Rightarrow> 'a option option" where
  "require cond k = (case cond of None \<Rightarrow> None | Some ok \<Rightarrow> if ok then k else Some None)"

text \<open>The checks of the static header; the value is the flags byte.\<close>

definition processHeader :: "bytes \<Rightarrow> u32 \<Rightarrow> u8 option option" where
  "processHeader headerQ querySize =
     (case rd_bytes headerQ 0 4 of None \<Rightarrow> None | Some szField \<Rightarrow>
      let totalSize = fromLE32 szField in
      require (Some (\<not> (totalSize \<noteq> querySize \<or> totalSize < MIN_MSG_SIZE \<or> totalSize > MAX_MSG_SIZE)))
     (require (match_bytes headerQ 4 [MAGIC_TAG, MAGIC_LENGTH])
     (require (match_bytes headerQ 6 MAGIC_BYTES)
     (require (match_bytes headerQ 10 [VERSION_TAG, VERSION_LENGTH])
     (require (match_bytes headerQ 12 VERSION_BYTES)
     (require (match_bytes headerQ 16 [MESSAGE_TYPE_TAG, MESSAGE_TYPE_LENGTH])
     (require (map_option (\<lambda>msgTypeValue. msgTypeValue = MESSAGE_TYPE_STANDARD_MESSAGE) (rd headerQ 18))
     (require (match_bytes headerQ 19 [MESSAGE_FLAGS_TAG, MESSAGE_FLAGS_LENGTH])
     (case rd headerQ 21 of None \<Rightarrow> None | Some msgFlagsValue \<Rightarrow>
        if msgFlagsValue \<noteq> Flags_None \<and> msgFlagsValue \<noteq> REPLY_CHECKSUM_XOR_DEVICE_ID
        then Some None else Some (Some msgFlagsValue))))))))))"

section \<open>The records of the query\<close>

record tlv_state =
  userData :: bytes
  wantDeviceID :: bool
  wantTimeTx :: bool
  wantTimeRx :: bool
  wantLastUpdated :: bool
  createResponseWithoutBody :: bool
  sizeR :: u32

definition tlv_init :: tlv_state where
  "tlv_init = \<lparr>userData = [], wantDeviceID = False, wantTimeTx = False, wantTimeRx = False,
     wantLastUpdated = False, createResponseWithoutBody = False, sizeR = HEADER_SIZE + CHECKSUM_SIZE\<rparr>"

text \<open>
  The common shape of the cases of the switch: a repeated or malformed record, or one whose
  answer does not fit, asks for a response without body; otherwise the request is noted.
\<close>

definition request ::
    "bool \<Rightarrow> u32 \<Rightarrow> u32 \<Rightarrow> (tlv_state \<Rightarrow> tlv_state option) \<Rightarrow> tlv_state \<Rightarrow> tlv_state option" where
  "request bad increment maxResponseSize note s =
     (if bad then Some (s\<lparr>createResponseWithoutBody := True\<rparr>)
      else case try_add_unsigned (sizeR s) increment maxResponseSize of
        (ok, sz) \<Rightarrow> if \<not> ok then Some (s\<lparr>createResponseWithoutBody := True\<rparr>)
                   else note (s\<lparr>sizeR := sz\<rparr>))"

definition processTLV :: "bytes \<Rightarrow> u32 \<Rightarrow> nat \<Rightarrow> u8 \<Rightarrow> u8 \<Rightarrow> tlv_state \<Rightarrow> tlv_state option" where
  "processTLV query maxResponseSize bodyQ tag len s =
     (if tag = USER_DATA_QTAG then
        request (userData s \<noteq> [] \<or> len < 1) (MIN_TLV_SIZE + ucast len) maxResponseSize
          (\<lambda>s. do { value \<leftarrow> rd_bytes query (bodyQ + unat MIN_TLV_SIZE) (unat len); Some (s\<lparr>userData := value\<rparr>) }) s
      else if tag = DEVICEID_QTAG then
        request (wantDeviceID s \<or> len \<noteq> 0) (MIN_TLV_SIZE + of_nat deviceIDLength) maxResponseSize
          (\<lambda>s. Some (s\<lparr>wantDeviceID := True\<rparr>)) s
      else if tag = TIMER_RX_QTAG then
        request (wantTimeRx s \<or> len \<noteq> 0) (MIN_TLV_SIZE + 8) maxResponseSize
          (\<lambda>s. Some (s\<lparr>wantTimeRx := True\<rparr>)) s
      else if tag = TIMER_TX_QTAG then
        request (wantTimeTx s \<or> len \<noteq> 0) (MIN_TLV_SIZE + 8) maxResponseSize
          (\<lambda>s. Some (s\<lparr>wantTimeTx := True\<rparr>)) s
      else if tag = DEVICEID_LAST_UPDATED_QTAG then
        request (wantLastUpdated s \<or> len \<noteq> 0) (MIN_TLV_SIZE + 8) maxResponseSize
          (\<lambda>s. Some (s\<lparr>wantLastUpdated := True\<rparr>)) s
      else Some s)"

text \<open>
  The loop over the records; \<open>bodyQ\<close> is the offset of the pointer in the query. The
  comparisons of \<open>remaining\<close> in the loop are unsigned, as C++ converts the signed operand.
\<close>

function tlv_loop :: "bytes \<Rightarrow> u32 \<Rightarrow> nat \<Rightarrow> u32 \<Rightarrow> tlv_state \<Rightarrow> (u32 \<times> tlv_state) option" where
  "tlv_loop query maxResponseSize bodyQ remaining s =
     (if MIN_TLV_SIZE \<le> remaining \<and> \<not> createResponseWithoutBody s
      then do {
        tag \<leftarrow> rd query bodyQ;
        len \<leftarrow> rd query (bodyQ + 1);
        if remaining < MIN_TLV_SIZE + ucast len then Some (remaining, s)
        else do {
          s' \<leftarrow> processTLV query maxResponseSize bodyQ tag len s;
          tlv_loop query maxResponseSize (bodyQ + (unat MIN_TLV_SIZE + unat len))
            (remaining - (MIN_TLV_SIZE + ucast len)) s'
        }
      }
      else Some (remaining, s))"
  by pat_completeness auto

lemma unat_tlv_size: "unat (MIN_TLV_SIZE + ucast (len :: u8)) = 2 + unat len"
proof -
  have "unat (ucast len :: u32) = unat len" by (simp add: unat_ucast_up)
  moreover have "2 + unat len < 2 ^ 32" using unat_u8_less [of len] by simp
  ultimately show ?thesis by (simp add: MIN_TLV_SIZE_def unat_word_ariths)
qed

termination tlv_loop
proof (relation "measure (\<lambda>(_, _, _, remaining, _). unat remaining)")
  fix remaining :: u32 and len :: u8
  assume "\<not> remaining < MIN_TLV_SIZE + ucast len"
  then show "((q, m, p + (unat MIN_TLV_SIZE + unat len), remaining - (MIN_TLV_SIZE + ucast len), s'),
      q, m, p, remaining, s) \<in> measure (\<lambda>(_, _, _, remaining, _). unat remaining)"
    for q :: bytes and m p and s s' :: tlv_state
    using unat_tlv_size [of len] by (simp add: unat_sub not_less word_le_nat_alt)
qed simp

declare tlv_loop.simps [simp del]

section \<open>The response\<close>

definition size_field :: "u32 \<Rightarrow> bytes" where
  "size_field sz = map (\<lambda>i. ucast (drop_bit (i * 8) sz AND 0xff)) [0..<4]"

definition header_bytes :: "u32 \<Rightarrow> u8 \<Rightarrow> u8 \<Rightarrow> bytes" where
  "header_bytes sz msgTypeValue msgFlagsValueR =
     size_field sz @
     [MAGIC_TAG, MAGIC_LENGTH] @ MAGIC_BYTES @ [VERSION_TAG, VERSION_LENGTH] @ VERSION_BYTES @
     [MESSAGE_TYPE_TAG, MESSAGE_TYPE_LENGTH, msgTypeValue] @
     [MESSAGE_FLAGS_TAG, MESSAGE_FLAGS_LENGTH, msgFlagsValueR]"

text \<open>
  One record of the response: appended at \<open>completeSizeR\<close>, a 16-bit counter, if it is wanted
  and stays below the maximum message size.
\<close>

definition append_tlv :: "bool \<Rightarrow> u8 \<Rightarrow> bytes \<Rightarrow> bytes \<times> u16 \<Rightarrow> (bytes \<times> u16) option" where
  "append_tlv wanted tag value st =
     (case st of (buf, completeSizeR) \<Rightarrow>
      let pos = unat completeSizeR in
      if wanted \<and> pos + unat MIN_TLV_SIZE + length value < unat MAX_MSG_SIZE
      then do {
        buf \<leftarrow> wr buf pos tag;
        buf \<leftarrow> wr buf (pos + 1) (of_nat (length value));
        buf \<leftarrow> wr_bytes buf (pos + unat MIN_TLV_SIZE) value;
        Some (buf, completeSizeR + of_nat (unat MIN_TLV_SIZE + length value))
      }
      else Some (buf, completeSizeR))"

text \<open>
  What \<open>createResponse\<close> reads from its collaborators during one call: two readings of the
  time stamp counter, and the watcher at the two points where its mutex is taken (the
  watcher thread may update it in between).
\<close>

record reply_env =
  rx_tsc :: u64
  tx_tsc :: u64
  id_watcher :: tpm_watcher
  stamp_watcher :: tpm_watcher

definition create_body :: "monotonic_timer \<Rightarrow> reply_env \<Rightarrow> tlv_state \<Rightarrow> bytes \<times> u16 \<Rightarrow> (bytes \<times> u16) option" where
  "create_body mt env s st0 = do {
     st1 \<leftarrow> append_tlv (userData s \<noteq> []) USER_DATA_RTAG (userData s) st0;
     st2 \<leftarrow> append_tlv (wantDeviceID s) DEVICEID_RTAG (TPMWatcher_get (id_watcher env)) st1;
     st3 \<leftarrow> append_tlv (wantTimeRx s) TIMER_RX_RTAG (toLE64 (MonotonicTimer_get mt (rx_tsc env))) st2;
     st4 \<leftarrow> append_tlv (wantTimeTx s) TIMER_TX_RTAG (toLE64 (MonotonicTimer_get mt (tx_tsc env))) st3;
     append_tlv (wantLastUpdated s) DEVICEID_LAST_UPDATED_RTAG
       (toLE64 (TPMWatcher_getLastUpdated (stamp_watcher env))) st4
   }"

text \<open>The checksum of the response, masked with the device ID if so requested.\<close>

definition add_checksum :: "digest \<Rightarrow> u8 \<Rightarrow> bytes \<Rightarrow> bytes \<times> u16 \<Rightarrow> (int \<times> bytes) option" where
  "add_checksum evp msgFlagsValueR devID st =
     (case st of (buf, completeSizeR) \<Rightarrow>
      if unat completeSizeR + unat CHECKSUM_SIZE > unat MAX_MSG_SIZE then Some (- 1, buf)
      else do {
        dat \<leftarrow> rd_bytes buf 0 (unat completeSizeR);
        case computeMD5 evp dat of
          None \<Rightarrow> Some (- 1, buf)
        | Some mdValueR \<Rightarrow> do {
            buf \<leftarrow> wr_bytes buf (unat completeSizeR)
                    (if msgFlagsValueR = HAS_CHECKSUM_XOR_DEVICE_ID then map2 (XOR) mdValueR devID else mdValueR);
            Some (int (unat (completeSizeR + ucast CHECKSUM_SIZE)), buf)
          }
      })"

text \<open>Verification of the checksum of the query.\<close>

definition checksum_ok :: "digest \<Rightarrow> bytes \<Rightarrow> u32 \<Rightarrow> bool option" where
  "checksum_ok evp query querySize = do {
     dat \<leftarrow> rd_bytes query 0 (unat (querySize - CHECKSUM_SIZE));
     case computeMD5 evp dat of
       None \<Rightarrow> Some False
     | Some mdValue \<Rightarrow> match_bytes query (unat (querySize - CHECKSUM_SIZE)) mdValue
   }"

text \<open>The assembly of the response in the caller's buffer once the query has been read.\<close>

definition write_response ::
    "digest \<Rightarrow> monotonic_timer \<Rightarrow> reply_env \<Rightarrow> u8 \<Rightarrow> tlv_state \<Rightarrow> bytes \<Rightarrow> (int \<times> bytes) option" where
  "write_response evp mt env msgFlagsValue s responseBuffer =
     (let msgFlagsValueR = (if msgFlagsValue AND REPLY_CHECKSUM_XOR_DEVICE_ID \<noteq> 0
                            then HAS_CHECKSUM_XOR_DEVICE_ID else Flags_None);
          sz = (if createResponseWithoutBody s then HEADER_SIZE + CHECKSUM_SIZE else sizeR s)
      in do {
        buf \<leftarrow> wr_bytes responseBuffer 0 (header_bytes sz MESSAGE_TYPE_STANDARD_MESSAGE msgFlagsValueR);
        st \<leftarrow> (if \<not> createResponseWithoutBody s then create_body mt env s (buf, ucast HEADER_SIZE)
              else Some (buf, ucast HEADER_SIZE));
        add_checksum evp msgFlagsValueR (TPMWatcher_get (id_watcher env)) st
      })"

text \<open>
  \<open>createResponse\<close>: the returned integer and the response buffer afterwards. Null pointers
  are \<open>None\<close> arguments.
\<close>

definition createResponse ::
    "digest \<Rightarrow> monotonic_timer \<Rightarrow> reply_env \<Rightarrow> bytes option \<Rightarrow> u32 \<Rightarrow> bytes option \<Rightarrow> u32 \<Rightarrow>
     (int \<times> bytes option) option" where
  "createResponse evp mt env query querySize responseBuffer maxResponseSize =
     (case (query, responseBuffer) of
        (Some q, Some rb) \<Rightarrow>
          if querySize < HEADER_SIZE \<or> maxResponseSize < HEADER_SIZE then Some (- 1, responseBuffer)
          else (case processHeader q querySize of
            None \<Rightarrow> None
          | Some None \<Rightarrow> Some (- 1, responseBuffer)
          | Some (Some msgFlagsValue) \<Rightarrow>
              (case checksum_ok evp q querySize of
                 None \<Rightarrow> None
               | Some False \<Rightarrow> Some (- 1, responseBuffer)
               | Some True \<Rightarrow>
                   if sizeR tlv_init > maxResponseSize then Some (- 1, responseBuffer)
                   else (case tlv_loop q maxResponseSize (unat HEADER_SIZE)
                           (querySize - HEADER_SIZE - CHECKSUM_SIZE) tlv_init of
                      None \<Rightarrow> None
                    | Some (remaining, s) \<Rightarrow>
                        if 0 < sint remaining then Some (- 1, responseBuffer)
                        else map_option (\<lambda>(n, buf). (n, Some buf))
                               (write_response evp mt env msgFlagsValue s rb))))
      | _ \<Rightarrow> Some (- 1, responseBuffer))"

end
