(* ===== verification/MessageBuilderSpec.thy ===== *)
theory MessageBuilderSpec
  imports MessageBuilder
begin

unbundle bit_operations_syntax

text \<open>
  The reading half of \<open>createResponse\<close>: the codec of the size field, the checks of the
  header, an abstract specification of the answer to a query over lists of records instead
  of buffers, and the record loop as an incremental parser of that list.
\<close>

section \<open>Codecs\<close>

lemma upt_4: "[0..<4] = [0, 1, 2, 3 :: nat]"
  by code_simp

lemma upt_8: "[0..<8] = [0, 1, 2, 3, 4, 5, 6, 7 :: nat]"
  by code_simp

lemma length_size_field [simp]: "length (size_field sz) = 4"
  by (simp add: size_field_def)

lemma length_toLE64 [simp]: "length (toLE64 num) = 8"
  by (simp add: toLE64_def)

lemma size_field_bytes:
  "size_field sz = [ucast sz, ucast (drop_bit 8 sz), ucast (drop_bit 16 sz), ucast (drop_bit 24 sz)]"
  by (simp add: size_field_def upt_4 ucast_and_ff)

lemma fromLE32_size_field: "fromLE32 (size_field sz) = sz"
proof (rule bit_word_eqI)
  fix n assume "n < LENGTH(32)"
  then have "n < 8 \<or> 8 \<le> n \<and> n < 16 \<or> 16 \<le> n \<and> n < 24 \<or> 24 \<le> n \<and> n < 32" by simp linarith
  then show "bit (fromLE32 (size_field sz)) n = bit sz n"
    unfolding fromLE32_def size_field_bytes
    by (elim disjE) (auto simp: bit_simps)
qed

lemma size_field_fromLE32:
  assumes "length b = 4"
  shows "size_field (fromLE32 b) = b"
proof -
  obtain b0 b1 b2 b3 where b: "b = [b0, b1, b2, b3]"
    using assms by (auto simp: numeral_eq_Suc length_Suc_conv)
  show ?thesis
    unfolding b size_field_bytes fromLE32_def
    by (simp, intro conjI bit_word_eqI) (auto simp: bit_simps dest: bit_u8_less)
qed

interpretation le32: byte_codec size_field fromLE32 4
  by unfold_locales (simp_all add: fromLE32_size_field)

section \<open>Header and checksum of the query\<close>

lemma match_bytes_in [buf_simps]:
  "p + length es \<le> length q \<Longrightarrow> match_bytes q p es = Some (take (length es) (drop p q) = es)"
proof (induction es arbitrary: p)
  case Nil
  then show ?case by simp
next
  case (Cons e es)
  then have "p < length q" by simp
  with Cons show ?case
    by (auto simp: rd_in Cons_nth_drop_Suc [symmetric])
qed

lemma require_Some [simp]: "require (Some ok) k = (if ok then k else Some None)"
  by (simp add: require_def)

lemma require_result:
  "require (Some a) (Some (if b then Some x else None)) = Some (if a \<and> b then Some x else None)"
  by simp

lemma length_header_bytes [simp]: "length (header_bytes sz ty fl) = 22"
  by (simp add: header_bytes_def)

lemma take_eq_append:
  "length xs = n \<Longrightarrow> n \<le> length q \<Longrightarrow>
   take (n + m) q = xs @ ys \<longleftrightarrow> take n q = xs \<and> take m (drop n q) = ys"
  by (auto simp: take_add)

lemma take_Suc_nth: "p < length q \<Longrightarrow> take (Suc n) (drop p q) = q ! p # take n (drop (Suc p) q)"
  by (simp add: Cons_nth_drop_Suc [symmetric])

lemma list22: 
  assumes "22 \<le> length q"
  obtains a0 a1 a2 a3 a4 a5 a6 a7 a8 a9 a10 a11 a12 a13 a14 a15 a16 a17 a18 a19 a20 a21 rest
  where "q = a0 # a1 # a2 # a3 # a4 # a5 # a6 # a7 # a8 # a9 # a10 # a11 # a12 # a13 # a14 # a15 #
    a16 # a17 # a18 # a19 # a20 # a21 # rest"
  using assms by (auto simp: numeral_eq_Suc Suc_le_length_iff)

lemma processHeader_spec:
  assumes "22 \<le> length q"
  shows "processHeader q n =
    Some (if take 22 q = header_bytes n 1 (q ! 21) \<and> (q ! 21 = 0 \<or> q ! 21 = 2) \<and>
             MIN_MSG_SIZE \<le> n \<and> n \<le> MAX_MSG_SIZE
          then Some (q ! 21) else None)"
proof -
  have sf: "fromLE32 (take 4 q) = n \<longleftrightarrow> take 4 q = size_field n"
    using assms size_field_fromLE32 [of "take 4 q"] by (auto simp: fromLE32_size_field)
  obtain a0 a1 a2 a3 a4 a5 a6 a7 a8 a9 a10 a11 a12 a13 a14 a15 a16 a17 a18 a19 a20 a21 rest
    where q: "q = a0 # a1 # a2 # a3 # a4 # a5 # a6 # a7 # a8 # a9 # a10 # a11 # a12 # a13 # a14 # a15 #
      a16 # a17 # a18 # a19 # a20 # a21 # rest"
    using list22 [OF assms] .
  have hd: "take 22 q = header_bytes n 1 fl \<longleftrightarrow> take 4 q = size_field n \<and>
     take 2 (drop 4 q) = [MAGIC_TAG, MAGIC_LENGTH] \<and> take 4 (drop 6 q) = MAGIC_BYTES \<and>
     take 2 (drop 10 q) = [VERSION_TAG, VERSION_LENGTH] \<and> take 4 (drop 12 q) = VERSION_BYTES \<and>
     take 2 (drop 16 q) = [MESSAGE_TYPE_TAG, MESSAGE_TYPE_LENGTH] \<and> q ! 18 = MESSAGE_TYPE_STANDARD_MESSAGE \<and>
     take 2 (drop 19 q) = [MESSAGE_FLAGS_TAG, MESSAGE_FLAGS_LENGTH] \<and> q ! 21 = fl" for fl
    unfolding q by (auto simp: header_bytes_def size_field_bytes)
  have "processHeader q n = require (Some (fromLE32 (take 4 q) = n \<and> MIN_MSG_SIZE \<le> n \<and> n \<le> MAX_MSG_SIZE))
      (require (Some (take 2 (drop 4 q) = [MAGIC_TAG, MAGIC_LENGTH]))
      (require (Some (take 4 (drop 6 q) = MAGIC_BYTES))
      (require (Some (take 2 (drop 10 q) = [VERSION_TAG, VERSION_LENGTH]))
      (require (Some (take 4 (drop 12 q) = VERSION_BYTES))
      (require (Some (take 2 (drop 16 q) = [MESSAGE_TYPE_TAG, MESSAGE_TYPE_LENGTH]))
      (require (Some (q ! 18 = MESSAGE_TYPE_STANDARD_MESSAGE))
      (require (Some (take 2 (drop 19 q) = [MESSAGE_FLAGS_TAG, MESSAGE_FLAGS_LENGTH]))
      (Some (if q ! 21 = 0 \<or> q ! 21 = 2 then Some (q ! 21) else None)))))))))"
  proof -
    have m: "match_bytes q p es = Some (take (length es) (drop p q) = es)" if "p + length es \<le> 22" for p es
      using that assms by (simp add: match_bytes_in)
    have l: "length MAGIC_BYTES = 4" "length VERSION_BYTES = 4" "length [x, y] = 2" for x y :: u8
      by simp_all
    have r: "rd_bytes q 0 4 = Some (take 4 q)" "rd q 18 = Some (q ! 18)" "rd q 21 = Some (q ! 21)"
      using assms by (simp_all add: rd_in rd_bytes_in)
    have e: "\<not> (t \<noteq> n \<or> t < MIN_MSG_SIZE \<or> MAX_MSG_SIZE < t) \<longleftrightarrow> t = n \<and> MIN_MSG_SIZE \<le> n \<and> n \<le> MAX_MSG_SIZE" for t
      by auto
    have f: "(if q ! 21 \<noteq> Flags_None \<and> q ! 21 \<noteq> REPLY_CHECKSUM_XOR_DEVICE_ID then Some None else Some (Some (q ! 21)))
        = Some (if q ! 21 = 0 \<or> q ! 21 = 2 then Some (q ! 21) else None)"
      by simp
    show ?thesis
      unfolding processHeader_def r option.case Let_def e option.map f
      by (subst m, simp)+ (simp only: l)
  qed
  then show ?thesis
    unfolding hd sf [symmetric] require_result by (rule trans) (intro arg_cong [where f = Some] if_cong refl, blast)
qed

section \<open>Records and the abstract answer\<close>

text \<open>
  The specification works on a list of records instead of pointers into the query. A body
  that does not split into records is malformed.
\<close>

type_synonym tlv_record = "u8 \<times> bytes"

fun parse_tlvs :: "bytes \<Rightarrow> tlv_record list option" where
  "parse_tlvs [] = Some []"
| "parse_tlvs [_] = None"
| "parse_tlvs (t # l # rest) =
     (if length rest < unat l then None
      else map_option ((#) (t, take (unat l) rest)) (parse_tlvs (drop (unat l) rest)))"

definition known_tag :: "u8 \<Rightarrow> bool" where
  "known_tag t \<longleftrightarrow> t \<in> {USER_DATA_QTAG, DEVICEID_QTAG, TIMER_RX_QTAG, TIMER_TX_QTAG, DEVICEID_LAST_UPDATED_QTAG}"

definition well_formed_record :: "tlv_record \<Rightarrow> bool" where
  "well_formed_record r \<longleftrightarrow>
     (if fst r = USER_DATA_QTAG then snd r \<noteq> [] else known_tag (fst r) \<longrightarrow> snd r = [])"

text \<open>The bytes a record adds to the response.\<close>

definition reply_size :: "tlv_record \<Rightarrow> nat" where
  "reply_size r = (if fst r = USER_DATA_QTAG then 2 + length (snd r)
     else if fst r = DEVICEID_QTAG then 18 else if known_tag (fst r) then 10 else 0)"

definition reply_total :: "tlv_record list \<Rightarrow> nat" where
  "reply_total recs = 38 + sum_list (map reply_size recs)"

definition acceptable :: "nat \<Rightarrow> tlv_record list \<Rightarrow> bool" where
  "acceptable maxR recs \<longleftrightarrow> list_all well_formed_record recs \<and>
     distinct (filter known_tag (map fst recs)) \<and> reply_total recs \<le> maxR"

definition asked :: "tlv_record list \<Rightarrow> u8 \<Rightarrow> bool" where
  "asked recs t \<longleftrightarrow> t \<in> set (map fst recs)"

definition user_data :: "tlv_record list \<Rightarrow> bytes" where
  "user_data recs = concat (map snd (filter (\<lambda>r. fst r = USER_DATA_QTAG) recs))"

definition tlv :: "bool \<Rightarrow> u8 \<Rightarrow> bytes \<Rightarrow> bytes" where
  "tlv wanted t v = (if wanted then t # of_nat (length v) # v else [])"

text \<open>The records of the response, in their fixed order.\<close>

definition reply_body :: "monotonic_timer \<Rightarrow> reply_env \<Rightarrow> tlv_record list \<Rightarrow> bytes" where
  "reply_body mt env recs =
     tlv (asked recs USER_DATA_QTAG) USER_DATA_RTAG (user_data recs) @
     tlv (asked recs DEVICEID_QTAG) DEVICEID_RTAG (TPMWatcher_get (id_watcher env)) @
     tlv (asked recs TIMER_RX_QTAG) TIMER_RX_RTAG (toLE64 (MonotonicTimer_get mt (rx_tsc env))) @
     tlv (asked recs TIMER_TX_QTAG) TIMER_TX_RTAG (toLE64 (MonotonicTimer_get mt (tx_tsc env))) @
     tlv (asked recs DEVICEID_LAST_UPDATED_QTAG) DEVICEID_LAST_UPDATED_RTAG
       (toLE64 (TPMWatcher_getLastUpdated (stamp_watcher env)))"

definition reply_flags :: "u8 \<Rightarrow> u8" where
  "reply_flags fl = (if fl = 2 then 1 else 0)"

text \<open>A complete message: header, body and the digest of both, masked if the flag says so.\<close>

definition sealed :: "digest \<Rightarrow> bytes \<Rightarrow> u8 \<Rightarrow> bytes \<Rightarrow> bytes option" where
  "sealed evp devID flags body =
     (let m = header_bytes (of_nat (38 + length body)) 1 flags @ body in
      map_option (\<lambda>md. m @ (if flags = 1 then map2 (XOR) md devID else md)) (computeMD5 evp m))"

definition well_formed_query :: "digest \<Rightarrow> bytes \<Rightarrow> bool" where
  "well_formed_query evp q \<longleftrightarrow>
     38 \<le> length q \<and> length q \<le> 32768 \<and> q ! 21 \<in> {0, 2} \<and>
     take 22 q = header_bytes (of_nat (length q)) 1 (q ! 21) \<and>
     computeMD5 evp (take (length q - 16) q) = Some (drop (length q - 16) q)"

text \<open>
  The answer to a query, \<open>None\<close> if there is none and the connection is to be closed. Only an
  error in the last record is answered, by a response without body.
\<close>

definition answer ::
    "digest \<Rightarrow> monotonic_timer \<Rightarrow> reply_env \<Rightarrow> nat \<Rightarrow> bytes \<Rightarrow> bytes option" where
  "answer evp mt env maxR q =
     (if \<not> well_formed_query evp q then None
      else case parse_tlvs (drop 22 (take (length q - 16) q)) of
        None \<Rightarrow> None
      | Some recs \<Rightarrow>
          let reply = sealed evp (TPMWatcher_get (id_watcher env)) (reply_flags (q ! 21))
          in if acceptable maxR recs then reply (reply_body mt env recs)
             else if recs \<noteq> [] \<and> acceptable maxR (butlast recs) then reply []
             else None)"

section \<open>The record loop\<close>

lemma acceptable_snoc:
  "acceptable maxR (recs @ [r]) \<longleftrightarrow>
   acceptable maxR recs \<and> well_formed_record r \<and> (known_tag (fst r) \<longrightarrow> \<not> asked recs (fst r)) \<and>
   reply_total recs + reply_size r \<le> maxR"
  by (auto simp: acceptable_def asked_def reply_total_def)

lemma acceptable_prefix: "acceptable maxR (xs @ ys) \<Longrightarrow> acceptable maxR xs"
  by (auto simp: acceptable_def reply_total_def)

lemma user_data_asked:
  "acceptable maxR recs \<Longrightarrow> user_data recs = [] \<longleftrightarrow> \<not> asked recs USER_DATA_QTAG"
  by (induction recs rule: rev_induct)
    (auto simp: acceptable_snoc asked_def user_data_def well_formed_record_def split: if_splits)

text \<open>The local variables of the loop after the records \<open>recs\<close>.\<close>

definition state_of :: "tlv_record list \<Rightarrow> tlv_state" where
  "state_of recs =
     \<lparr>userData = user_data recs, wantDeviceID = asked recs DEVICEID_QTAG, wantTimeTx = asked recs TIMER_TX_QTAG,
      wantTimeRx = asked recs TIMER_RX_QTAG, wantLastUpdated = asked recs DEVICEID_LAST_UPDATED_QTAG,
      createResponseWithoutBody = False, sizeR = of_nat (reply_total recs)\<rparr>"

lemma createResponseWithoutBody_state_of [simp]: "\<not> createResponseWithoutBody (state_of recs)"
  by (simp add: state_of_def)

lemma state_of_Nil: "state_of [] = tlv_init"
  by (simp add: state_of_def tlv_init_def user_data_def asked_def reply_total_def size_consts)

lemma unat_of_nat_u32: "n \<le> unat (mx :: u32) \<Longrightarrow> unat (of_nat n :: u32) = n"
  using unat_u32_less [of mx] by (simp add: unat_of_nat)

lemma request_spec:
  assumes "unat (sizeR s) = n" and "unat inc = k"
  shows "request bad inc mx note s =
    (if bad \<or> unat mx < n + k then Some (s\<lparr>createResponseWithoutBody := True\<rparr>)
     else note (s\<lparr>sizeR := of_nat (n + k)\<rparr>))"
proof -
  have "inc = of_nat k" "sizeR s = of_nat n" using assms by (auto simp: )
  then show ?thesis
    using assms by (simp add: request_def try_add_unsigned_spec)
qed

lemma asked_snoc [simp]: "asked (recs @ [r]) t \<longleftrightarrow> asked recs t \<or> fst r = t"
  by (auto simp: asked_def)

lemma user_data_snoc [simp]:
  "user_data (recs @ [r]) = user_data recs @ (if fst r = USER_DATA_QTAG then snd r else [])"
  by (simp add: user_data_def)

lemma reply_total_snoc [simp]: "reply_total (recs @ [r]) = reply_total recs + reply_size r"
  by (simp add: reply_total_def)

lemma processTLV_step:
  assumes ok: "acceptable (unat mx) recs" and fits: "p + 2 + unat len \<le> length q"
    and v: "v = take (unat len) (drop (p + 2) q)"
  shows "processTLV q mx p tag len (state_of recs) =
    Some (if acceptable (unat mx) (recs @ [(tag, v)]) then state_of (recs @ [(tag, v)])
          else (state_of recs)\<lparr>createResponseWithoutBody := True\<rparr>)"
proof -
  have total: "unat (sizeR (state_of recs)) = reply_total recs"
    using ok unat_of_nat_u32 [of _ mx] by (simp add: state_of_def acceptable_def)
  have len: "length v = unat len" using fits v by simp
  have nil: "v = [] \<longleftrightarrow> len = 0" using len by (auto simp: unat_eq_0)
  have less1: "len < 1 \<longleftrightarrow> len = 0" by (simp add: word_less_nat_alt unat_eq_0)
  have inc: "unat (MIN_TLV_SIZE + of_nat deviceIDLength) = 18" "unat (MIN_TLV_SIZE + 8) = 10"
    by (simp_all add: size_consts deviceIDLength_def)
  have rdv: "rd_bytes q (p + unat MIN_TLV_SIZE) (unat len) = Some v"
    using fits v by (simp add: rd_bytes_in size_consts)
  note rs = request_spec [OF total unat_tlv_size] request_spec [OF total inc(1)] request_spec [OF total inc(2)]
  have ud: "user_data recs \<noteq> [] \<longleftrightarrow> asked recs USER_DATA_QTAG" using user_data_asked [OF ok] by simp
  consider "tag = USER_DATA_QTAG" | "tag = DEVICEID_QTAG" | "tag = TIMER_RX_QTAG" | "tag = TIMER_TX_QTAG"
    | "tag = DEVICEID_LAST_UPDATED_QTAG" | "\<not> known_tag tag"
    by (auto simp: known_tag_def)
  then show ?thesis
  proof cases
    case 1
    then show ?thesis
      unfolding processTLV_def rs using ok ud len nil rdv
      by (auto simp: acceptable_snoc well_formed_record_def reply_size_def known_tag_def less1 state_of_def)
  next
    case 6
    then show ?thesis
      using ok by (auto simp: processTLV_def acceptable_snoc well_formed_record_def reply_size_def known_tag_def
          state_of_def acceptable_def)
  qed (use ok nil in \<open>unfold processTLV_def rs,
       auto simp: acceptable_snoc well_formed_record_def reply_size_def known_tag_def state_of_def\<close>)
qed

lemma parse_tlvs_eq_Nil [simp]: "parse_tlvs b = Some [] \<longleftrightarrow> b = []"
  by (cases b rule: parse_tlvs.cases) auto

text \<open>What is left after the loop: nothing, unless the body is malformed or an error came early.\<close>

lemma tlv_loop_stop:
  "createResponseWithoutBody s \<Longrightarrow> tlv_loop q mx p remaining s = Some (remaining, s)"
  by (subst tlv_loop.simps) simp

lemma take_drop_Cons2:
  assumes "p + 2 \<le> length q" and "2 \<le> n"
  shows "take n (drop p q) = q ! p # q ! Suc p # take (n - 2) (drop (p + 2) q)"
proof -
  have "drop p q = q ! p # q ! Suc p # drop (p + 2) q"
    using assms(1) by (simp add: Cons_nth_drop_Suc)
  then show ?thesis using assms(2) by (cases n; cases "n - 1") auto
qed

definition loop_result :: "nat \<Rightarrow> tlv_record list \<Rightarrow> tlv_record list option \<Rightarrow> u32 \<Rightarrow> tlv_state \<Rightarrow> bool" where
  "loop_result maxR recs parsed rem s =
     (case parsed of
        None \<Rightarrow> rem \<noteq> 0
      | Some new \<Rightarrow>
          if acceptable maxR (recs @ new) then rem = 0 \<and> s = state_of (recs @ new)
          else if acceptable maxR (recs @ butlast new) then rem = 0 \<and> createResponseWithoutBody s
          else rem \<noteq> 0)"

lemma loop_result_good:
  assumes "acceptable maxR (recs @ [r])" and "loop_result maxR (recs @ [r]) parsed rem s"
  shows "loop_result maxR recs (map_option ((#) r) parsed) rem s"
  using assms by (auto simp: loop_result_def split: option.splits if_splits)

lemma loop_result_bad:
  assumes "acceptable maxR recs" and "\<not> acceptable maxR (recs @ [r])"
    and "rem = 0 \<longleftrightarrow> parsed = Some []" and "createResponseWithoutBody s"
  shows "loop_result maxR recs (map_option ((#) r) parsed) rem s"
proof (cases parsed)
  case None
  with assms(3) show ?thesis by (simp add: loop_result_def)
next
  case (Some new)
  have "acceptable maxR (recs @ butlast (r # new)) \<longleftrightarrow> new = []"
    using assms(1,2) acceptable_prefix [of maxR "recs @ [r]" "butlast new"] by auto
  moreover have "\<not> acceptable maxR (recs @ r # new)"
    using assms(2) acceptable_prefix [of maxR "recs @ [r]" new] by auto
  ultimately show ?thesis using Some assms(3,4) by (simp add: loop_result_def)
qed

lemma tlv_loop_spec:
  assumes "p + unat remaining \<le> length q" and "acceptable (unat mx) recs"
  shows "\<exists>rem s. tlv_loop q mx p remaining (state_of recs) = Some (rem, s) \<and> unat rem \<le> unat remaining \<and>
    loop_result (unat mx) recs (parse_tlvs (take (unat remaining) (drop p q))) rem s"
  using assms
proof (induction "unat remaining" arbitrary: p remaining recs rule: less_induct)
  case less
  let ?n = "unat remaining"
  consider "?n = 0" | "?n = 1" | "2 \<le> ?n" by linarith
  then show ?case
  proof cases
    case 1
    then have "tlv_loop q mx p remaining (state_of recs) = Some (remaining, state_of recs)"
      by (subst tlv_loop.simps) (simp add: size_consts unat_eq_0)
    with 1 less.prems show ?thesis by (simp add: unat_eq_0 loop_result_def)
  next
    case 2
    then have r: "remaining = 1" by (metis unat_1 word_unat_eq_iff)
    then have "tlv_loop q mx p remaining (state_of recs) = Some (remaining, state_of recs)"
      by (subst tlv_loop.simps) (simp add: size_consts word_le_nat_alt)
    moreover have "take ?n (drop p q) = [q ! p]"
      using 2 less.prems(1) by (simp add: take_Suc_nth [of _ _ 0, simplified])
    ultimately show ?thesis using r by (simp add: loop_result_def)
  next
    case 3
    have p2: "p + 2 \<le> length q" using 3 less.prems(1) by simp
    define len where "len = q ! Suc p"
    define v where "v = take (unat len) (drop (p + 2) q)"
    define rest where "rest = take (?n - 2 - unat len) (drop (p + (2 + unat len)) q)"
    have body: "take ?n (drop p q) = q ! p # len # take (?n - 2) (drop (p + 2) q)"
      unfolding len_def by (rule take_drop_Cons2 [OF p2 3])
    have loop: "tlv_loop q mx p remaining (state_of recs) =
      (if remaining < MIN_TLV_SIZE + ucast len then Some (remaining, state_of recs)
       else do { s' \<leftarrow> processTLV q mx p (q ! p) len (state_of recs);
                 tlv_loop q mx (p + (2 + unat len)) (remaining - (MIN_TLV_SIZE + ucast len)) s' })"
      using 3 p2 by (subst tlv_loop.simps) (simp add: rd_in len_def word_le_nat_alt size_consts state_of_def)
    show ?thesis
    proof (cases "?n < 2 + unat len")
      case True
      then have "remaining < MIN_TLV_SIZE + ucast len" by (simp add: word_less_nat_alt unat_tlv_size)
      with loop have "tlv_loop q mx p remaining (state_of recs) = Some (remaining, state_of recs)" by simp
      moreover have "parse_tlvs (take ?n (drop p q)) = None"
        using True 3 less.prems(1) unfolding body by auto
      ultimately show ?thesis using 3 by (auto simp: loop_result_def)
    next
      case False
      then have nl: "\<not> remaining < MIN_TLV_SIZE + ucast len" by (simp add: word_less_nat_alt unat_tlv_size)
      then have un: "unat (remaining - (MIN_TLV_SIZE + ucast len)) = ?n - 2 - unat len"
        by (simp add: unat_sub word_le_nat_alt unat_tlv_size not_less)
      have parse: "parse_tlvs (take ?n (drop p q)) = map_option ((#) (q ! p, v)) (parse_tlvs rest)"
        using False p2 less.prems(1) unfolding body
        by (auto simp: v_def rest_def drop_take min_def add.commute add.left_commute)
      have lrest: "length rest = ?n - 2 - unat len" using False less.prems(1) by (simp add: rest_def)
      have step: "processTLV q mx p (q ! p) len (state_of recs) =
        Some (if acceptable (unat mx) (recs @ [(q ! p, v)]) then state_of (recs @ [(q ! p, v)])
              else (state_of recs)\<lparr>createResponseWithoutBody := True\<rparr>)"
        by (rule processTLV_step [OF less.prems(2) _ v_def]) (use False less.prems(1) in simp)
      show ?thesis
      proof (cases "acceptable (unat mx) (recs @ [(q ! p, v)])")
        case True
        have "unat (remaining - (MIN_TLV_SIZE + ucast len)) < ?n" using un 3 by simp
        from less.hyps [OF this _ True, of "p + (2 + unat len)"]
        obtain rem s where "tlv_loop q mx (p + (2 + unat len)) (remaining - (MIN_TLV_SIZE + ucast len))
            (state_of (recs @ [(q ! p, v)])) = Some (rem, s)"
          and "unat rem \<le> ?n - 2 - unat len" and "loop_result (unat mx) (recs @ [(q ! p, v)]) (parse_tlvs rest) rem s"
          using False less.prems(1) unfolding un rest_def by fastforce
        then show ?thesis
          using True unfolding loop step parse by (auto simp: nl intro: loop_result_good)
      next
        case bad: False
        have "remaining - (MIN_TLV_SIZE + ucast len) = 0 \<longleftrightarrow> parse_tlvs rest = Some []"
          using un lrest by (metis length_0_conv unat_eq_zero parse_tlvs_eq_Nil)
        from loop_result_bad [OF less.prems(2) bad this] show ?thesis
          using bad nl un unfolding loop step parse by (auto simp: tlv_loop_stop)
      qed
    qed
  qed
qed

end
