(* ===== verification/MessageBuilderRefine.thy ===== *)
theory MessageBuilderRefine
  imports MessageBuilderSpec
begin

unbundle bit_operations_syntax

text \<open>
  The writing half of \<open>createResponse\<close>, its refinement of the abstract answer, and the
  properties of the whole function: memory safety, bounds, error behaviour, and what the
  receiver of a response can rely on.
\<close>

section \<open>Writing the response\<close>

lemma length_tlv [simp]: "length (tlv wanted t v) = (if wanted then 2 + length v else 0)"
  by (simp add: tlv_def)

text \<open>The response buffer \<open>buf0\<close> after the bytes \<open>pre\<close> have been written, with the 16-bit counter.\<close>

definition filled :: "bytes \<Rightarrow> bytes \<Rightarrow> bytes \<times> u16" where
  "filled pre buf0 = (pre @ drop (length pre) buf0, of_nat (length pre))"

lemma append_tlv_filled:
  assumes "length pre + length (tlv wanted t v) \<le> length buf0" and "length pre + length (tlv wanted t v) < 32768"
  shows "append_tlv wanted t v (filled pre buf0) = Some (filled (pre @ tlv wanted t v) buf0)"
proof (cases wanted)
  case False
  then show ?thesis by (simp add: append_tlv_def filled_def tlv_def)
next
  case True
  define d where "d = drop (length pre) buf0"
  have len: "length v + 2 \<le> length d" using assms True by (simp add: d_def)
  then obtain x y d' where d: "d = x # y # d'" by (cases d; cases "tl d") auto
  have pos: "unat (of_nat (length pre) :: u16) = length pre"
    using assms(2) by (simp add: unat_of_nat)
  have dd: "drop (length pre + (2 + length v)) buf0 = drop (length v) d'"
  proof -
    have "drop (2 + length v) d = drop (length v) d'" using d by simp
    then show ?thesis unfolding d_def by (simp add: add.commute add.left_commute)
  qed
  have "wr_bytes (pre @ t # of_nat (length v) # d') (length pre + 2) v =
      Some (pre @ t # of_nat (length v) # v @ drop (length v) d')"
    using len d by (simp add: wr_bytes_in)
  then show ?thesis
    using True assms(2) pos d len dd
    by (simp add: append_tlv_def filled_def tlv_def size_consts wr_in d_def [symmetric] list_update_append)
qed

lemma create_body_filled:
  assumes "acceptable maxR recs"
    and "length pre + length (reply_body mt env recs) \<le> length buf0"
    and "length pre + length (reply_body mt env recs) < 32768"
  shows "create_body mt env (state_of recs) (filled pre buf0) = Some (filled (pre @ reply_body mt env recs) buf0)"
proof -
  have "userData (state_of recs) \<noteq> [] \<longleftrightarrow> asked recs USER_DATA_QTAG"
    using user_data_asked [OF assms(1)] by (simp add: state_of_def)
  then show ?thesis
    using assms(2,3) unfolding create_body_def
    by (simp add: append_tlv_filled state_of_def reply_body_def split del: if_split)
qed

lemma length_reply_body:
  assumes "watcher_inv (id_watcher env)" and "acceptable maxR recs"
  shows "38 + length (reply_body mt env recs) = reply_total recs"
  using assms(2)
proof (induction recs rule: rev_induct)
  case Nil
  then show ?case by (simp add: reply_body_def asked_def reply_total_def)
next
  case (snoc r recs)
  have id: "length (TPMWatcher_get (id_watcher env)) = 16"
    using watcher_id.get_id_length [OF assms(1)] by (simp add: deviceIDLength_def)
  have ok: "acceptable maxR recs" and new: "known_tag (fst r) \<longrightarrow> \<not> asked recs (fst r)"
    using snoc.prems by (auto simp: acceptable_snoc)
  note ud = user_data_asked [OF ok] and ih = snoc.IH [OF ok]
  obtain t v where r: "r = (t, v)" by (cases r)
  show ?case
  proof (cases "known_tag t")
    case False
    then show ?thesis using ih r by (simp add: reply_body_def reply_size_def known_tag_def)
  next
    case True
    then consider "t = USER_DATA_QTAG" | "t = DEVICEID_QTAG" | "t = TIMER_RX_QTAG" | "t = TIMER_TX_QTAG"
      | "t = DEVICEID_LAST_UPDATED_QTAG" by (auto simp: known_tag_def)
    then show ?thesis
      using ih id new ud True r by cases (simp_all add: reply_body_def reply_size_def)
  qed
qed

lemma user_data_length:
  "acceptable maxR recs \<Longrightarrow> \<forall>r \<in> set recs. length (snd r) < 256 \<Longrightarrow> length (user_data recs) < 256"
  by (induction recs rule: rev_induct)
    (simp add: user_data_def, auto simp: acceptable_snoc known_tag_def dest: user_data_asked)

lemma parse_tlvs_length: "parse_tlvs b = Some recs \<Longrightarrow> r \<in> set recs \<Longrightarrow> length (snd r) < 256"
proof (induction b arbitrary: recs rule: parse_tlvs.induct)
  case (3 t l rest)
  then show ?case using unat_u8_less [of l] by (auto split: if_splits)
qed auto

lemma reply_body_bound:
  assumes "watcher_inv (id_watcher env)" and "acceptable maxR recs" and "parse_tlvs b = Some recs"
  shows "length (reply_body mt env recs) \<le> 305"
proof -
  have "length (user_data recs) < 256"
    using user_data_length [OF assms(2)] parse_tlvs_length [OF assms(3)] by blast
  then show ?thesis
    using watcher_id.get_id_length [OF assms(1)] by (simp add: reply_body_def deviceIDLength_def)
qed

text \<open>The caller's buffer after a response, and the value returned.\<close>

definition sent :: "bytes option \<Rightarrow> bytes \<Rightarrow> int \<times> bytes \<Rightarrow> bool" where
  "sent reply rb res \<longleftrightarrow> length (snd res) = length rb \<and>
     (case reply of None \<Rightarrow> fst res = - 1
      | Some m \<Rightarrow> fst res = int (length m) \<and> snd res = m @ drop (length m) rb)"

lemma add_checksum_filled:
  assumes "length m + 16 \<le> length rb" and "length m + 16 \<le> 32768" and "length devID = 16"
  shows "\<exists>res. add_checksum evp fl devID (filled m rb) = Some res \<and>
    sent (map_option (\<lambda>md. m @ (if fl = 1 then map2 (XOR) md devID else md)) (computeMD5 evp m)) rb res"
proof -
  have pos: "unat (of_nat (length m) :: u16) = length m" using assms(2) by (simp add: unat_of_nat)
  have tot: "unat (of_nat (length m) + ucast CHECKSUM_SIZE :: u16) = length m + 16"
    using assms(2) by (simp add: size_consts unat_word_ariths unat_of_nat)
  have rd: "rd_bytes (m @ drop (length m) rb) 0 (length m) = Some m" by (simp add: rd_bytes_in)
  have md: "length d = 16" if "computeMD5 evp m = Some d" for d
    using that by (auto simp: computeMD5_def size_consts split: option.splits if_splits)
  have wr: "wr_bytes (m @ drop (length m) rb) (length m) c = Some (m @ c @ drop (length m + 16) rb)"
    if "length c = 16" for c
    using that assms(1) by (simp add: wr_bytes_in add.commute)
  show ?thesis
  proof (cases "computeMD5 evp m")
    case None
    then show ?thesis using assms pos rd
      by (simp add: add_checksum_def filled_def sent_def size_consts)
  next
    case (Some d)
    let ?c = "if fl = 1 then map2 (XOR) d devID else d"
    have c: "length ?c = 16" using md [OF Some] assms(3) by simp
    show ?thesis
      using assms Some pos rd wr [OF c] c tot
      by (simp add: add_checksum_def filled_def sent_def size_consts del: if_distrib)
  qed
qed

lemma write_response_spec:
  assumes fl: "fl \<in> {0, 2}" and id: "watcher_inv (id_watcher env)"
    and s: "if createResponseWithoutBody s then body = []
            else s = state_of recs \<and> acceptable maxR recs \<and> body = reply_body mt env recs"
    and fits: "38 + length body \<le> length rb" "length body \<le> 305"
  shows "\<exists>res. write_response evp mt env fl s rb = Some res \<and>
    sent (sealed evp (TPMWatcher_get (id_watcher env)) (reply_flags fl) body) rb res"
proof -
  have flR: "(if fl AND REPLY_CHECKSUM_XOR_DEVICE_ID \<noteq> 0 then HAS_CHECKSUM_XOR_DEVICE_ID else Flags_None) = reply_flags fl"
    using fl by (auto simp: reply_flags_def)
  define sz :: u32 where "sz = of_nat (38 + length body)"
  define h where "h = header_bytes sz 1 (reply_flags fl)"
  have h: "length h = 22" by (simp add: h_def)
  have sz: "(if createResponseWithoutBody s then HEADER_SIZE + CHECKSUM_SIZE else sizeR s) = sz"
  proof (cases "createResponseWithoutBody s")
    case False
    then have "sizeR s = of_nat (reply_total recs)" using s by (simp add: state_of_def)
    moreover have "reply_total recs = 38 + length body" using False s length_reply_body [OF id] by metis
    ultimately show ?thesis using False by (simp only: sz_def if_False)
  qed (use s in \<open>simp add: sz_def size_consts\<close>)
  have w: "wr_bytes rb 0 h = Some (h @ drop 22 rb)" using fits h by (simp add: wr_bytes_in)
  have st: "(if \<not> createResponseWithoutBody s then create_body mt env s (h @ drop 22 rb, ucast HEADER_SIZE)
      else Some (h @ drop 22 rb, ucast HEADER_SIZE)) = Some (filled (h @ body) rb)"
  proof -
    have "(h @ drop 22 rb, ucast HEADER_SIZE) = filled h rb" by (simp add: filled_def h size_consts)
    then show ?thesis
      using s fits h create_body_filled [of maxR recs h mt env rb] by auto
  qed
  have "length (TPMWatcher_get (id_watcher env)) = 16"
    using watcher_id.get_id_length [OF id] by (simp add: deviceIDLength_def)
  from add_checksum_filled [OF _ _ this, of "h @ body" rb evp "reply_flags fl"]
  show ?thesis
    using fits h unfolding write_response_def Let_def flR sz sealed_def
    by (simp add: h_def [symmetric] sz_def [symmetric] w st del: of_nat_add)
qed

lemma checksum_ok_spec:
  assumes "38 \<le> unat n" and "unat n \<le> length q"
  shows "checksum_ok evp q n =
    Some (computeMD5 evp (take (unat n - 16) q) = Some (take 16 (drop (unat n - 16) q)))"
proof -
  have u: "unat (n - CHECKSUM_SIZE) = unat n - 16"
    using assms(1) by (simp add: unat_sub word_le_nat_alt size_consts)
  have "length md = 16" if "computeMD5 evp b = Some md" for b md
    using that by (auto simp: computeMD5_def size_consts split: option.splits if_splits)
  then show ?thesis
    using assms u
    by (auto simp: checksum_ok_def rd_bytes_in match_bytes_in split: option.splits)
qed

lemma well_formed_query_take:
  assumes "unat n \<le> length q"
  shows "well_formed_query evp (take (unat n) q) \<longleftrightarrow>
    38 \<le> unat n \<and> unat n \<le> 32768 \<and> q ! 21 \<in> {0, 2} \<and> take 22 q = header_bytes n 1 (q ! 21) \<and>
    computeMD5 evp (take (unat n - 16) q) = Some (take 16 (drop (unat n - 16) q))"
  using assms by (auto simp: well_formed_query_def min_def drop_take)

lemma createResponse_checks:
  assumes "unat n \<le> length q"
  shows "createResponse evp mt env (Some q) n (Some rb) mx =
    (if well_formed_query evp (take (unat n) q) \<and> 38 \<le> unat mx
     then case tlv_loop q mx 22 (n - 38) tlv_init of
            None \<Rightarrow> None
          | Some (remaining, s) \<Rightarrow>
              if 0 < sint remaining then Some (- 1, Some rb)
              else map_option (\<lambda>(k, buf). (k, Some buf)) (write_response evp mt env (q ! 21) s rb)
     else Some (- 1, Some rb))"
proof (cases "22 \<le> unat n \<and> 22 \<le> unat mx")
  case False
  then have "n < HEADER_SIZE \<or> mx < HEADER_SIZE" by (auto simp: word_less_nat_alt size_consts)
  with False assms show ?thesis by (auto simp: createResponse_def well_formed_query_take)
next
  case True
  then have g: "\<not> (n < HEADER_SIZE \<or> mx < HEADER_SIZE)" by (auto simp: word_less_nat_alt size_consts)
  have b: "MIN_MSG_SIZE \<le> n \<longleftrightarrow> 38 \<le> unat n" "n \<le> MAX_MSG_SIZE \<longleftrightarrow> unat n \<le> 32768"
    "sizeR tlv_init > mx \<longleftrightarrow> \<not> 38 \<le> unat mx" "unat HEADER_SIZE = 22"
    by (auto simp: word_le_nat_alt word_less_nat_alt size_consts tlv_init_def)
  have sub: "n - HEADER_SIZE - CHECKSUM_SIZE = n - 38" by (simp add: size_consts)
  have ph: "processHeader q n = Some (if take 22 q = header_bytes n 1 (q ! 21) \<and> (q ! 21 = 0 \<or> q ! 21 = 2) \<and>
      38 \<le> unat n \<and> unat n \<le> 32768 then Some (q ! 21) else None)"
    using processHeader_spec [of q n] True assms unfolding b by simp
  show ?thesis
    unfolding createResponse_def prod.case option.case if_not_P [OF g] ph b sub well_formed_query_take [OF assms]
    by (auto simp: checksum_ok_spec [OF _ assms] split: bool.splits)
qed

lemma answer_sent:
  assumes id: "watcher_inv (id_watcher env)" and q: "unat n \<le> length q" and rb: "unat mx \<le> length rb"
    and wf: "well_formed_query evp (take (unat n) q)" and m: "38 \<le> unat mx"
  shows "\<exists>r rb'. createResponse evp mt env (Some q) n (Some rb) mx = Some (r, Some rb') \<and>
    sent (answer evp mt env (unat mx) (take (unat n) q)) rb (r, rb')"
proof -
  let ?n = "unat n"
  from wf have n: "38 \<le> ?n" "?n \<le> 32768" and fl: "q ! 21 \<in> {0, 2}"
    by (auto simp: well_formed_query_take [OF q])
  have un: "unat (n - 38) = ?n - 38" using n by (simp add: unat_sub word_le_nat_alt)
  have acc: "acceptable (unat mx) []" using m by (simp add: acceptable_def reply_total_def)
  let ?body = "drop 22 (take (?n - 16) q)"
  have body: "take (?n - 38) (drop 22 q) = ?body" by (simp add: drop_take)
  obtain rem s where loop: "tlv_loop q mx 22 (n - 38) tlv_init = Some (rem, s)"
    and rem: "unat rem \<le> ?n - 38" and res: "loop_result (unat mx) [] (parse_tlvs ?body) rem s"
    using tlv_loop_spec [of 22 "n - 38" q mx "[]"] acc q n unfolding un body state_of_Nil by fastforce
  have sign: "0 < sint rem \<longleftrightarrow> rem \<noteq> 0"
    using rem n by (intro sint_u32_pos) simp
  have wq: "take ?n q ! 21 = q ! 21" "length (take ?n q) = ?n" "take (?n - 16) (take ?n q) = take (?n - 16) q"
    using n q by simp_all
  note ans = answer_def [of evp mt env "unat mx" "take ?n q", unfolded wq]
  note cr = createResponse_checks [OF q, of evp mt env rb mx, unfolded loop option.case prod.case sign]
  consider (bad) "rem \<noteq> 0" "answer evp mt env (unat mx) (take ?n q) = None"
    | (full) recs where "rem = 0" "parse_tlvs ?body = Some recs" "acceptable (unat mx) recs" "s = state_of recs"
    | (empty) recs where "rem = 0" "parse_tlvs ?body = Some recs" "\<not> acceptable (unat mx) recs" "recs \<noteq> []"
        "acceptable (unat mx) (butlast recs)" "createResponseWithoutBody s"
    using res acc by (cases "parse_tlvs ?body") (auto simp: loop_result_def ans split: if_splits)
  then show ?thesis
  proof cases
    case bad
    then show ?thesis using wf m by (simp add: cr sent_def)
  next
    case full
    have "38 + length (reply_body mt env recs) \<le> length rb"
      using length_reply_body [OF id full(3)] full(3) rb by (simp add: acceptable_def)
    from write_response_spec [OF fl id _ this reply_body_bound [OF id full(3,2)], of s recs "unat mx" mt evp] full
    obtain res where "write_response evp mt env (q ! 21) s rb = Some res"
      and "sent (sealed evp (TPMWatcher_get (id_watcher env)) (reply_flags (q ! 21)) (reply_body mt env recs)) rb res"
      by auto
    then show ?thesis using full wf m unfolding cr ans by (cases res) simp
  next
    case empty
    from write_response_spec [OF fl id, of s "[]" recs 0 mt rb evp] empty rb m
    obtain res where "write_response evp mt env (q ! 21) s rb = Some res"
      and "sent (sealed evp (TPMWatcher_get (id_watcher env)) (reply_flags (q ! 21)) []) rb res"
      by auto
    then show ?thesis using empty wf m unfolding cr ans by (cases res) simp
  qed
qed

lemma createResponse_sent:
  assumes "watcher_inv (id_watcher env)" and q: "unat n \<le> length q" and "unat mx \<le> length rb"
  shows "\<exists>r rb'. createResponse evp mt env (Some q) n (Some rb) mx = Some (r, Some rb') \<and>
    sent (answer evp mt env (unat mx) (take (unat n) q)) rb (r, rb')"
proof (cases "well_formed_query evp (take (unat n) q) \<and> 38 \<le> unat mx")
  case True
  then show ?thesis using answer_sent [OF assms] by blast
next
  case False
  then have "answer evp mt env (unat mx) (take (unat n) q) = None"
    by (auto simp: answer_def acceptable_def reply_total_def split: option.splits)
  with False show ?thesis unfolding createResponse_checks [OF q] by (simp add: if_not_P sent_def)
qed
section \<open>Properties of \<open>createResponse\<close>\<close>

text \<open>
  What the code relies on of the MD5 implementation: it does not fail and its digest has
  16 bytes.
\<close>

definition digest_works :: "digest \<Rightarrow> bool" where
  "digest_works evp \<longleftrightarrow> (\<forall>m. \<exists>md. evp m = Some md \<and> length md = 16)"

lemma computeMD5_works: "digest_works evp \<Longrightarrow> \<exists>md. computeMD5 evp m = Some md \<and> length md = 16"
proof -
  assume "digest_works evp"
  then obtain md where "evp m = Some md" "length md = 16" unfolding digest_works_def by blast
  then show ?thesis by (simp add: computeMD5_def size_consts)
qed

lemma computeMD5_length: "computeMD5 evp m = Some md \<Longrightarrow> length md = 16"
  by (auto simp: computeMD5_def size_consts split: option.splits if_splits)

lemma answer_SomeD:
  assumes "answer evp mt env maxR q = Some m" and id: "watcher_inv (id_watcher env)"
  shows "\<exists>body. length body \<le> 305 \<and> 38 + length body \<le> maxR \<and>
    sealed evp (TPMWatcher_get (id_watcher env)) (reply_flags (q ! 21)) body = Some m"
proof -
  obtain recs where p: "parse_tlvs (drop 22 (take (length q - 16) q)) = Some recs"
    and "acceptable maxR recs \<and>
        sealed evp (TPMWatcher_get (id_watcher env)) (reply_flags (q ! 21)) (reply_body mt env recs) = Some m \<or>
      acceptable maxR (butlast recs) \<and>
        sealed evp (TPMWatcher_get (id_watcher env)) (reply_flags (q ! 21)) [] = Some m"
    using assms(1) by (auto simp: answer_def Let_def split: if_splits option.splits)
  then show ?thesis
  proof (elim disjE conjE)
    assume a: "acceptable maxR recs"
    then have "38 + length (reply_body mt env recs) \<le> maxR"
      using length_reply_body [OF id a] by (simp add: acceptable_def)
    with a p id show "sealed evp (TPMWatcher_get (id_watcher env)) (reply_flags (q ! 21)) (reply_body mt env recs) = Some m
        \<Longrightarrow> ?thesis"
      using reply_body_bound [OF id a p] by blast
  next
    assume "acceptable maxR (butlast recs)"
    then have "38 \<le> maxR" by (simp add: acceptable_def reply_total_def)
    then show "sealed evp (TPMWatcher_get (id_watcher env)) (reply_flags (q ! 21)) [] = Some m \<Longrightarrow> ?thesis"
      by (intro exI [of _ "[]"]) simp
  qed
qed

lemma sealed_SomeD:
  assumes "sealed evp devID fl body = Some m" and "length devID = 16"
  shows "\<exists>md. m = header_bytes (of_nat (length m)) 1 fl @ body @ (if fl = 1 then map2 (XOR) md devID else md) \<and>
    length m = 38 + length body \<and> computeMD5 evp (take (length m - 16) m) = Some md \<and> length md = 16"
proof -
  let ?h = "header_bytes (of_nat (38 + length body)) 1 fl"
  from assms(1) obtain md where md: "computeMD5 evp (?h @ body) = Some md"
    and m: "m = (?h @ body) @ (if fl = 1 then map2 (XOR) md devID else md)"
    unfolding sealed_def Let_def by (auto simp del: of_nat_add)
  have l: "length md = 16" by (rule computeMD5_length [OF md])
  have len: "length m = 38 + length body" unfolding m using l assms(2) by simp
  moreover have "take (length m - 16) m = ?h @ body" unfolding len by (simp add: m)
  ultimately show ?thesis using md l m by (intro exI [of _ md]) (simp only:, simp)
qed

text \<open>
  C1: \<open>createResponse\<close> implements the abstract answer. For every query and every response
  buffer it returns without touching memory outside of them; if the specification has an
  answer, its length is returned and the buffer starts with it and is unchanged after it;
  otherwise -1 is returned.
\<close>

theorem createResponse_refines:
  assumes "watcher_inv (id_watcher env)"
    and "unat querySize \<le> length query" and "unat maxResponseSize \<le> length buffer"
  shows "\<exists>r buffer'.
    createResponse evp mt env (Some query) querySize (Some buffer) maxResponseSize = Some (r, Some buffer') \<and>
    length buffer' = length buffer \<and>
    (case answer evp mt env (unat maxResponseSize) (take (unat querySize) query) of
       None \<Rightarrow> r = - 1
     | Some m \<Rightarrow> r = int (length m) \<and> buffer' = m @ drop (length m) buffer)"
  using createResponse_sent [OF assms, of evp mt] unfolding sent_def fst_conv snd_conv by blast

text \<open>
  C2: memory safety and bounds. Null pointers, empty and oversized inputs included, no access
  leaves a buffer, and the result is -1 or a size between 38 and 343 that does not exceed
  the size allowed by the caller.
\<close>

theorem createResponse_memory_safe:
  assumes id: "watcher_inv (id_watcher env)"
    and "\<And>q. query = Some q \<Longrightarrow> unat querySize \<le> length q"
    and "\<And>rb. responseBuffer = Some rb \<Longrightarrow> unat maxResponseSize \<le> length rb"
  shows "\<exists>r rb'. createResponse evp mt env query querySize responseBuffer maxResponseSize = Some (r, rb') \<and>
    (r = - 1 \<or> 38 \<le> r \<and> r \<le> 343 \<and> nat r \<le> unat maxResponseSize)"
proof (cases "\<exists>q rb. query = Some q \<and> responseBuffer = Some rb")
  case False
  then show ?thesis by (auto simp: createResponse_def split: option.splits)
next
  case True
  then obtain q rb where q: "query = Some q" and rb: "responseBuffer = Some rb" by blast
  let ?a = "answer evp mt env (unat maxResponseSize) (take (unat querySize) q)"
  from createResponse_sent [OF id assms(2) [OF q] assms(3) [OF rb], of evp mt]
  obtain r rb' where c: "createResponse evp mt env query querySize responseBuffer maxResponseSize = Some (r, Some rb')"
    and s: "sent ?a rb (r, rb')" unfolding q rb by blast
  have "38 \<le> length m \<and> length m \<le> 343 \<and> length m \<le> unat maxResponseSize" if "?a = Some m" for m
    using answer_SomeD [OF that id] sealed_SomeD watcher_id.get_id_length [OF id]
    by (fastforce simp: deviceIDLength_def)
  with c s show ?thesis by (cases ?a) (auto simp: sent_def)
qed

text \<open>
  C3: what the receiver can rely on. Every response carries the header of the interface with
  its own size, and its last 16 bytes are the digest of all bytes before them: in the clear
  if the query did not ask for masking, and masked with the device ID otherwise, so that the
  receiver recovers exactly the device ID by XOR with a digest it computes itself.
\<close>

theorem createResponse_authentic:
  assumes id: "watcher_inv (id_watcher env)"
    and sizes: "unat querySize \<le> length query" "unat maxResponseSize \<le> length buffer"
    and run: "createResponse evp mt env (Some query) querySize (Some buffer) maxResponseSize = Some (r, Some buffer')"
    and ok: "r \<noteq> - 1" and m: "m = take (nat r) buffer'"
  shows "\<exists>md. computeMD5 evp (take (nat r - 16) m) = Some md \<and>
     take 22 m = header_bytes (of_nat (nat r)) 1 (reply_flags (query ! 21)) \<and>
     (query ! 21 = 0 \<longrightarrow> drop (nat r - 16) m = md) \<and>
     (query ! 21 = 2 \<longrightarrow> map2 (XOR) (drop (nat r - 16) m) md = TPMWatcher_get (id_watcher env))"
proof -
  let ?q = "take (unat querySize) query"
  obtain m' where a: "answer evp mt env (unat maxResponseSize) ?q = Some m'"
    and r: "nat r = length m'" and mm: "m = m'"
    using createResponse_sent [OF id sizes, of evp mt] run ok m
    by (cases "answer evp mt env (unat maxResponseSize) ?q") (auto simp: sent_def)
  have dl: "length (TPMWatcher_get (id_watcher env)) = 16"
    using watcher_id.get_id_length [OF id] by (simp add: deviceIDLength_def)
  have "38 \<le> unat querySize"
    using a sizes(1) by (auto simp: answer_def well_formed_query_take split: if_splits)
  then have q21: "?q ! 21 = query ! 21" by simp
  from answer_SomeD [OF a id] obtain body where
    "sealed evp (TPMWatcher_get (id_watcher env)) (reply_flags (query ! 21)) body = Some m" unfolding q21 mm by blast
  from sealed_SomeD [OF this dl] obtain md where
    me: "m = header_bytes (of_nat (length m)) 1 (reply_flags (query ! 21)) @ body @
         (if reply_flags (query ! 21) = 1 then map2 (XOR) md (TPMWatcher_get (id_watcher env)) else md)"
    and lm: "length m = 38 + length body" and md: "computeMD5 evp (take (length m - 16) m) = Some md" "length md = 16"
    by blast
  have h: "take 22 m = header_bytes (of_nat (length m)) 1 (reply_flags (query ! 21))"
    by (subst me) simp
  have d: "drop (length m - 16) m =
      (if reply_flags (query ! 21) = 1 then map2 (XOR) md (TPMWatcher_get (id_watcher env)) else md)"
    by (subst me) (simp add: lm)
  show ?thesis
    unfolding r mm [symmetric] using h d md watcher_id.unmask [OF id]
    by (intro exI [of _ md]) (simp add: reply_flags_def deviceIDLength_def)
qed

text \<open>
  C4: an acceptable query gets the complete response: its size is exactly the size computed
  while the query was read, and the records follow in the fixed order of the interface with
  the data of the timer and the watcher.
\<close>

theorem createResponse_full_reply:
  assumes id: "watcher_inv (id_watcher env)"
    and sizes: "unat querySize = length query" "unat maxResponseSize \<le> length buffer"
    and "digest_works evp" and "well_formed_query evp query"
    and "parse_tlvs (drop 22 (take (length query - 16) query)) = Some recs"
    and acc: "acceptable (unat maxResponseSize) recs"
  shows "\<exists>buffer'. createResponse evp mt env (Some query) querySize (Some buffer) maxResponseSize =
      Some (int (reply_total recs), Some buffer') \<and>
    take (reply_total recs - 16) buffer' =
      header_bytes (of_nat (reply_total recs)) 1 (reply_flags (query ! 21)) @ reply_body mt env recs"
proof -
  let ?h = "header_bytes (of_nat (reply_total recs)) 1 (reply_flags (query ! 21)) @ reply_body mt env recs"
  have lb: "38 + length (reply_body mt env recs) = reply_total recs" by (rule length_reply_body [OF id acc])
  obtain md where md: "computeMD5 evp ?h = Some md" "length md = 16" using computeMD5_works assms(4) by blast
  let ?c = "if reply_flags (query ! 21) = 1 then map2 (XOR) md (TPMWatcher_get (id_watcher env)) else md"
  have lc: "length ?c = 16" using md(2) watcher_id.get_id_length [OF id] by (simp add: deviceIDLength_def)
  have a: "answer evp mt env (unat maxResponseSize) query = Some (?h @ ?c)"
    using assms(5,6) acc md(1) by (simp add: answer_def sealed_def lb del: of_nat_add)
  have len: "length (?h @ ?c) = reply_total recs" "reply_total recs - 16 = length ?h" using lc lb by simp_all
  show ?thesis
    using createResponse_sent [OF id _ sizes(2), of querySize query evp mt] sizes(1) a len
    unfolding sent_def by (auto simp del: append_assoc)
qed

text \<open>
  C29: an error in the last record of a query (a repeated or malformed one, or one whose answer
  does not fit) is answered by a response without body.
\<close>

theorem createResponse_last_record_bad:
  assumes id: "watcher_inv (id_watcher env)"
    and sizes: "unat querySize = length query" "unat maxResponseSize \<le> length buffer"
    and "digest_works evp" and "well_formed_query evp query"
    and "parse_tlvs (drop 22 (take (length query - 16) query)) = Some (recs @ [r])"
    and acc: "acceptable (unat maxResponseSize) recs" and bad: "\<not> acceptable (unat maxResponseSize) (recs @ [r])"
  shows "\<exists>buffer'. createResponse evp mt env (Some query) querySize (Some buffer) maxResponseSize =
      Some (38, Some buffer') \<and> take 22 buffer' = header_bytes 38 1 (reply_flags (query ! 21))"
proof -
  let ?h = "header_bytes 38 1 (reply_flags (query ! 21))"
  obtain md where md: "computeMD5 evp ?h = Some md" "length md = 16" using computeMD5_works assms(4) by blast
  let ?c = "if reply_flags (query ! 21) = 1 then map2 (XOR) md (TPMWatcher_get (id_watcher env)) else md"
  have lc: "length ?c = 16" using md(2) watcher_id.get_id_length [OF id] by (simp add: deviceIDLength_def)
  have "answer evp mt env (unat maxResponseSize) query = Some (?h @ ?c)"
    using assms(5,6) acc bad md(1) by (simp add: answer_def sealed_def)
  then show ?thesis
    using createResponse_sent [OF id _ sizes(2), of querySize query evp mt] sizes(1) lc
    unfolding sent_def by auto
qed

text \<open>
  C28: an error in any earlier record is not answered at all: the loop stops at the bad record
  with bytes of the query left over, which counts as a malformed query, and -1 is returned.
\<close>

theorem createResponse_early_record_bad:
  assumes id: "watcher_inv (id_watcher env)"
    and sizes: "unat querySize = length query" "unat maxResponseSize \<le> length buffer"
    and "parse_tlvs (drop 22 (take (length query - 16) query)) = Some (recs @ r # r' # recs')"
    and bad: "\<not> acceptable (unat maxResponseSize) (recs @ [r])"
  shows "\<exists>buffer'. createResponse evp mt env (Some query) querySize (Some buffer) maxResponseSize =
    Some (- 1, Some buffer')"
proof -
  have "\<not> acceptable (unat maxResponseSize) (recs @ r # xs)" for xs
    using bad acceptable_prefix [of _ "recs @ [r]" xs] by auto
  then have "answer evp mt env (unat maxResponseSize) query = None"
    using assms(4) by (simp add: answer_def butlast_append)
  then show ?thesis
    using createResponse_sent [OF id _ sizes(2), of querySize query evp mt] sizes(1)
    unfolding sent_def by auto
qed

section \<open>Concrete queries\<close>

text \<open>A message with a given body and the digest in the clear.\<close>

definition plain_message :: "digest \<Rightarrow> u8 \<Rightarrow> bytes \<Rightarrow> bytes option" where
  "plain_message evp fl body =
     (let m = header_bytes (of_nat (38 + length body)) 1 fl @ body in map_option ((@) m) (computeMD5 evp m))"

lemma plain_messageD:
  assumes "plain_message evp fl body = Some q"
  shows "length q = 38 + length body" "take (length q - 16) q = header_bytes (of_nat (length q)) 1 fl @ body"
    "computeMD5 evp (take (length q - 16) q) = Some (drop (length q - 16) q)"
    "drop 22 (take (length q - 16) q) = body" "take 22 q = header_bytes (of_nat (length q)) 1 fl" "q ! 21 = fl"
proof -
  let ?h = "header_bytes (of_nat (38 + length body)) 1 fl"
  from assms obtain md where md: "computeMD5 evp (?h @ body) = Some md" and q: "q = ?h @ body @ md"
    by (auto simp: plain_message_def Let_def simp del: of_nat_add)
  have l: "length md = 16" by (rule computeMD5_length [OF md])
  show len: "length q = 38 + length body" using q l by simp
  have t: "take (length q - 16) q = ?h @ body" unfolding len by (simp add: q)
  then show "take (length q - 16) q = header_bytes (of_nat (length q)) 1 fl @ body" unfolding len by simp
  have "drop (length q - 16) q = md" unfolding len by (simp add: q)
  with md t show "computeMD5 evp (take (length q - 16) q) = Some (drop (length q - 16) q)" by simp
  show "drop 22 (take (length q - 16) q) = body" unfolding t by simp
  show "take 22 q = header_bytes (of_nat (length q)) 1 fl" unfolding len by (simp add: q)
  have "?h ! 21 = fl" by (simp add: header_bytes_def size_field_bytes)
  then show "q ! 21 = fl" by (simp add: q nth_append)
qed

lemma plain_message_well_formed:
  assumes "plain_message evp fl body = Some q" and "length body \<le> 32730" and "fl \<in> {0, 2}"
  shows "well_formed_query evp q"
  using plain_messageD [OF assms(1)] assms(2,3) by (simp add: well_formed_query_def)

text \<open>A digest function for examples: 16 copies of the sum of the bytes.\<close>

definition sample_digest :: digest where
  "sample_digest m = Some (replicate 16 (sum_list m))"

lemma sample_digest_works: "digest_works sample_digest"
  by (simp add: digest_works_def sample_digest_def)

definition sample_env :: reply_env where
  "sample_env = \<lparr>rx_tsc = 1000, tx_tsc = 2000, id_watcher = sample_watcher, stamp_watcher = sample_watcher\<rparr>"

lemma sample_env_inv: "watcher_inv (id_watcher sample_env)"
  by (simp add: sample_env_def sample_watcher_def watcher_inv_def deviceIDLength_def)

text \<open>A query for the device ID and the receive time, with a masked checksum in the response.\<close>

definition sample_query :: bytes where
  "sample_query = the (plain_message sample_digest 2 [0x91, 0, 0x92, 0])"

lemma sample_message:
  "plain_message sample_digest fl body = Some (the (plain_message sample_digest fl body))"
  by (simp add: plain_message_def Let_def computeMD5_def sample_digest_def size_consts)

lemmas sample_queryD = plain_messageD [OF sample_message [of 2 "[0x91, 0, 0x92, 0]"], folded sample_query_def]

lemma sample_query_facts:
  "length sample_query = 42" "well_formed_query sample_digest sample_query" "sample_query ! 21 = 2"
  "parse_tlvs (drop 22 (take (length sample_query - 16) sample_query)) = Some [(0x91, []), (0x92, [])]"
  "acceptable 400 [(0x91, []), (0x92, [])]"
  using sample_queryD plain_message_well_formed [OF sample_message [of 2 "[0x91, 0, 0x92, 0]"]]
  by (simp_all add: sample_query_def [symmetric] acceptable_def reply_total_def reply_size_def known_tag_def
      well_formed_record_def)

theorem createResponse_refines_witness:
  "\<exists>r buffer'.
    createResponse sample_digest sample_timer sample_env (Some sample_query) 42 (Some (replicate 400 0)) 400 =
      Some (r, Some buffer') \<and> length buffer' = 400"
  using createResponse_refines [OF sample_env_inv, of 42 sample_query 400 "replicate 400 0" sample_digest sample_timer]
  by (auto simp: sample_query_facts)

theorem createResponse_memory_safe_witness:
  "\<exists>r rb'. createResponse sample_digest sample_timer sample_env (Some sample_query) 42 (Some (replicate 400 0)) 400 =
     Some (r, rb') \<and> (r = - 1 \<or> 38 \<le> r \<and> r \<le> 343 \<and> nat r \<le> 400)"
  using createResponse_memory_safe [OF sample_env_inv, of "Some sample_query" 42 "Some (replicate 400 0)" 400
      sample_digest sample_timer]
  by (simp add: sample_query_facts)

theorem createResponse_full_reply_witness:
  "\<exists>buffer'. createResponse sample_digest sample_timer sample_env (Some sample_query) 42 (Some (replicate 400 0)) 400 =
     Some (66, Some buffer')"
  using createResponse_full_reply [OF sample_env_inv _ _ sample_digest_works sample_query_facts(2,4),
      of 42 400 "replicate 400 0" sample_timer]
  by (auto simp: sample_query_facts reply_total_def reply_size_def known_tag_def)

text \<open>The device ID can be read off the masked checksum of the answer to the sample query.\<close>

theorem createResponse_authentic_witness:
  "\<exists>r buffer' md. createResponse sample_digest sample_timer sample_env (Some sample_query) 42 (Some (replicate 400 0)) 400 =
     Some (r, Some buffer') \<and> map2 (XOR) (drop (nat r - 16) (take (nat r) buffer')) md = TPMWatcher_get sample_watcher"
proof -
  obtain r rb' where run: "createResponse sample_digest sample_timer sample_env (Some sample_query) 42
      (Some (replicate 400 0)) 400 = Some (r, Some rb')" and s: "sent (answer sample_digest sample_timer sample_env 400
        sample_query) (replicate 400 0) (r, rb')"
    using createResponse_sent [OF sample_env_inv, of 42 sample_query 400 "replicate 400 0" sample_digest sample_timer]
    by (auto simp: sample_query_facts)
  have "answer sample_digest sample_timer sample_env 400 sample_query \<noteq> None"
    unfolding answer_def sample_query_facts(4) option.case Let_def
    by (simp add: sample_query_facts(2,5) sealed_def Let_def computeMD5_def sample_digest_def size_consts)
  with s have "r \<noteq> - 1" by (auto simp: sent_def)
  from createResponse_authentic [OF sample_env_inv _ _ run this refl] run show ?thesis
    by (simp add: sample_query_facts sample_env_def) blast
qed

text \<open>A query that asks for the device ID twice, and one that does so before another record.\<close>

definition twice_query :: bytes where
  "twice_query = the (plain_message sample_digest 0 [0x91, 0, 0x91, 0])"

definition early_query :: bytes where
  "early_query = the (plain_message sample_digest 0 [0x91, 0, 0x91, 0, 0x92, 0])"

lemmas bad_record_defs = acceptable_def reply_total_def reply_size_def known_tag_def well_formed_record_def

theorem createResponse_last_record_bad_witness:
  "\<exists>buffer'. createResponse sample_digest sample_timer sample_env (Some twice_query) 42 (Some (replicate 400 0)) 400 =
     Some (38, Some buffer')"
proof -
  note msg = sample_message [of 0 "[0x91, 0, 0x91, 0]", folded twice_query_def]
  have "parse_tlvs (drop 22 (take (length twice_query - 16) twice_query)) = Some ([(0x91, [])] @ [(0x91, [])])"
    using plain_messageD [OF msg] by simp
  from createResponse_last_record_bad [OF sample_env_inv _ _ sample_digest_works plain_message_well_formed [OF msg] this,
      of 42 400 "replicate 400 0" sample_timer]
  show ?thesis using plain_messageD [OF msg] by (auto simp: bad_record_defs)
qed

theorem createResponse_early_record_bad_witness:
  "\<exists>buffer'. createResponse sample_digest sample_timer sample_env (Some early_query) 44 (Some (replicate 400 0)) 400 =
     Some (- 1, Some buffer')"
proof -
  note msg = sample_message [of 0 "[0x91, 0, 0x91, 0, 0x92, 0]", folded early_query_def]
  have "parse_tlvs (drop 22 (take (length early_query - 16) early_query)) =
      Some ([(0x91, [])] @ (0x91, []) # (0x92, []) # [])"
    using plain_messageD [OF msg] by simp
  from createResponse_early_record_bad [OF sample_env_inv _ _ this, of 44 400 "replicate 400 0" sample_digest sample_timer]
  show ?thesis using plain_messageD [OF msg] by (auto simp: bad_record_defs)
qed

end
