(* ===== verification/Responder.thy ===== *)
theory Responder
  imports MessageBuilderRefine
begin

text \<open>
  \<open>src/src/responder.cpp\<close>: the TCP server around the message builder. The operating system is
  a parameter, a record of functions on an unknown world \<open>'w\<close> that answer each system call;
  the validity flag of the time source, which the timer thread may clear at any moment, and
  the readings that \<open>createResponse\<close> takes are answers of the world too. The elements of
  \<open>sockets\<close> are represented by their file descriptors: \<open>events\<close> is always \<open>POLLIN\<close> and
  \<open>revents\<close> is never read. \<open>trace\<close> is a history variable with the input and output of the
  process, a \<open>Sent\<close> entry standing for a response sent completely; the texts written to
  \<open>std::cerr\<close> are not part of it.
\<close>

section \<open>The operating system\<close>

datatype errno = EAGAIN | EWOULDBLOCK | ECONNABORTED | OtherError int

datatype accept_result = Connection int | AcceptError errno

text \<open>A return value of -1 is \<open>RecvError\<close>, any other one the number of received bytes.\<close>

datatype recv_result = Received bytes | RecvError errno

record ('w, 'e) os =
  os_valid :: "'w \<Rightarrow> bool \<times> 'w"
  os_accept :: "'w \<Rightarrow> int \<Rightarrow> accept_result \<times> 'w"
  os_fcntl :: "'w \<Rightarrow> int \<Rightarrow> int \<times> 'w"
  os_recv :: "'w \<Rightarrow> int \<Rightarrow> nat \<Rightarrow> recv_result \<times> 'w"
  os_send :: "'w \<Rightarrow> int \<Rightarrow> bytes \<Rightarrow> int \<times> 'w"
  os_close :: "'w \<Rightarrow> int \<Rightarrow> 'w"
  os_poll :: "'w \<Rightarrow> int list \<Rightarrow> int \<times> 'w"
  os_readings :: "'w \<Rightarrow> 'e \<times> 'w"

section \<open>State\<close>

datatype io_event = Accepted int | Closed int | Query int bytes | Sent int bytes

definition maxSizeOfMessage :: nat where [size_consts]:
  "maxSizeOfMessage = 61440"

record 'w server =
  ip :: string
  port :: string
  maxConnections :: int
  sockets :: "int list"
  recvBuffer :: bytes
  sendBuffer :: bytes
  world :: 'w
  trace :: "io_event list"

text \<open>
  The member arrays are not initialised by the constructor: their contents \<open>rb\<close> and \<open>sb\<close> are
  arbitrary.
\<close>

definition Responder_new :: "string \<Rightarrow> string \<Rightarrow> int \<Rightarrow> bytes \<Rightarrow> bytes \<Rightarrow> 'w \<Rightarrow> 'w server" where
  "Responder_new host prt maxConn rb sb w =
     \<lparr>ip = host, port = prt, maxConnections = maxConn, sockets = [], recvBuffer = rb, sendBuffer = sb,
      world = w, trace = []\<rparr>"

text \<open>\<open>exit(EXIT_FAILURE)\<close> ends the process in the state \<open>Inl s\<close>; \<open>Inr s\<close> goes on.\<close>

type_synonym 'w exec = "'w server + 'w server"

definition close_socket :: "('w, 'e) os \<Rightarrow> int \<Rightarrow> 'w server \<Rightarrow> 'w server" where
  "close_socket os fd s = s\<lparr>world := os_close os (world s) fd, trace := trace s @ [Closed fd]\<rparr>"

section \<open>Setting up the server socket\<close>

text \<open>The answers of the calls that \<open>setupServer\<close> makes, and the resources it holds.\<close>

record net =
  gai_result :: int
  gai_addresses :: nat
  socket_result :: int
  fcntl_result :: int
  setsockopt_result :: int
  bind_result :: int
  listen_result :: int

datatype net_event = AddrinfoObtained | AddrinfoFreed | SocketOpened int | SocketClosed int

definition setupServer :: "net \<Rightarrow> 'w server \<Rightarrow> bool \<times> 'w server \<times> net_event list" where
  "setupServer n s =
     (if gai_result n \<noteq> 0 then (False, s, [])
      else if gai_addresses n = 0 then (False, s, [])
      else
        let serverSocket = socket_result n in
        if - 1 = serverSocket then (False, s, [AddrinfoObtained, AddrinfoFreed])
        else
          let opened = [AddrinfoObtained, SocketOpened serverSocket];
              failed = opened @ [SocketClosed serverSocket, AddrinfoFreed]
          in if - 1 = fcntl_result n then (False, s, failed)
             else if - 1 = bind_result n then (False, s, failed)
             else if - 1 = listen_result n then (False, s, failed)
             else (True, s\<lparr>sockets := sockets s @ [serverSocket]\<rparr>, opened @ [AddrinfoFreed]))"

section \<open>Accepting connections\<close>

text \<open>
  The comparison \<open>sockets.size() > maxConnections\<close> is unsigned in 64 bits: a negative limit
  becomes a huge one.
\<close>

definition limit_reached :: "'w server \<Rightarrow> bool" where
  "limit_reached s \<longleftrightarrow> (word_of_int (maxConnections s) :: u64) < of_nat (length (sockets s))"

text \<open>The loop ends when \<open>accept\<close> would block; \<open>None\<close> stands for a loop that does not end.\<close>

partial_function (option) accept_loop :: "('w, 'e) os \<Rightarrow> int \<Rightarrow> 'w server \<Rightarrow> 'w exec option" where
  "accept_loop os serverSocket s =
     (case os_accept os (world s) serverSocket of (res, w) \<Rightarrow>
      let s = s\<lparr>world := w\<rparr> in
      case res of
        AcceptError e \<Rightarrow>
          if e = EAGAIN \<or> e = EWOULDBLOCK then Some (Inr s)
          else if e = ECONNABORTED then accept_loop os serverSocket s
          else Some (Inl s)
      | Connection fd \<Rightarrow>
          let s = s\<lparr>trace := trace s @ [Accepted fd]\<rparr> in
          if limit_reached s then accept_loop os serverSocket (close_socket os fd s)
          else case os_fcntl os (world s) fd of (r, w) \<Rightarrow>
            let s = s\<lparr>world := w\<rparr> in
            if - 1 = r then accept_loop os serverSocket (close_socket os fd s)
            else accept_loop os serverSocket (s\<lparr>sockets := sockets s @ [fd]\<rparr>))"

definition acceptNewClients :: "('w, 'e) os \<Rightarrow> 'w server \<Rightarrow> 'w exec option" where
  "acceptNewClients os s =
     (case sockets s of [] \<Rightarrow> Some (Inl s) | serverSocket # _ \<Rightarrow> accept_loop os serverSocket s)"

section \<open>Serving one connection\<close>

text \<open>
  One \<open>recv\<close> into the buffer at \<open>recvSize\<close>; \<open>None\<close> if the kernel wrote past its end.
\<close>

definition recv_at :: "('w, 'e) os \<Rightarrow> int \<Rightarrow> nat \<Rightarrow> 'w server \<Rightarrow> (recv_result \<times> 'w server) option" where
  "recv_at os fd recvSize s =
     (case os_recv os (world s) fd (maxSizeOfMessage - recvSize) of (res, w) \<Rightarrow>
      case res of
        Received b \<Rightarrow> map_option (\<lambda>buf. (res, s\<lparr>world := w, recvBuffer := buf\<rparr>)) (wr_bytes (recvBuffer s) recvSize b)
      | RecvError _ \<Rightarrow> Some (res, s\<lparr>world := w\<rparr>))"

function recv_loop ::
    "('w, 'e) os \<Rightarrow> int \<Rightarrow> nat \<Rightarrow> recv_result \<Rightarrow> 'w server \<Rightarrow> (nat \<times> recv_result \<times> 'w server) option" where
  "recv_loop os fd recvSize (RecvError e) s = Some (recvSize, RecvError e, s)"
| "recv_loop os fd recvSize (Received b) s =
     (if b \<noteq> [] \<and> recvSize < maxSizeOfMessage
      then do {
        (res, s') \<leftarrow> recv_at os fd (recvSize + length b) s;
        recv_loop os fd (recvSize + length b) res s'
      }
      else Some (recvSize, Received b, s))"
  by pat_completeness auto

termination recv_loop
  by (relation "measure (\<lambda>(_, _, recvSize, _, _). maxSizeOfMessage - recvSize)")
    (auto intro: diff_less_mono2)

declare recv_loop.simps [simp del]

text \<open>
  \<open>builder\<close> is \<open>messageBuilder.createResponse\<close>; the boolean result says whether the
  connection stays in the list. The last branch for \<open>Received\<close> would test a stale \<open>errno\<close>;
  it needs a \<open>recv\<close> of length 0 that delivers data.
\<close>

type_synonym 'e builder = "'e \<Rightarrow> bytes option \<Rightarrow> u32 \<Rightarrow> bytes option \<Rightarrow> u32 \<Rightarrow> (int \<times> bytes option) option"

definition respond ::
    "('w, 'e) os \<Rightarrow> 'e builder \<Rightarrow> int \<Rightarrow> nat \<Rightarrow> 'w server \<Rightarrow> (bool \<times> 'w server) option" where
  "respond os builder fd recvSize s =
     (case os_readings os (world s) of (e, w) \<Rightarrow>
      let s = s\<lparr>world := w, trace := trace s @ [Query fd (take recvSize (recvBuffer s))]\<rparr> in
      case builder e (Some (recvBuffer s)) (of_nat recvSize) (Some (sendBuffer s)) (of_nat maxSizeOfMessage) of
        Some (sendSize, Some buf) \<Rightarrow>
          let s = s\<lparr>sendBuffer := buf\<rparr> in
          if sendSize = - 1 then Some (False, close_socket os fd s)
          else
            let message = take (nat sendSize) (sendBuffer s) in
            (case os_send os (world s) fd message of (sendResult, w) \<Rightarrow>
             if sendResult = sendSize
             then Some (True, s\<lparr>world := w, trace := trace s @ [Sent fd message]\<rparr>)
             else Some (False, close_socket os fd (s\<lparr>world := w\<rparr>)))
      | _ \<Rightarrow> None)"

definition handle_connection ::
    "('w, 'e) os \<Rightarrow> 'e builder \<Rightarrow> int \<Rightarrow> 'w server \<Rightarrow> (bool \<times> 'w server) option" where
  "handle_connection os builder fd s = do {
     (res, s) \<leftarrow> recv_at os fd 0 s;
     (recvSize, res, s) \<leftarrow> recv_loop os fd 0 res s;
     (case res of
        Received b \<Rightarrow> if b = [] then Some (False, close_socket os fd s) else None
      | RecvError e \<Rightarrow>
          if e \<noteq> EAGAIN \<and> e \<noteq> EWOULDBLOCK then Some (False, close_socket os fd s)
          else if recvSize = 0 then Some (True, s)
          else respond os builder fd recvSize s)
   }"

section \<open>The main loop\<close>

text \<open>The connections behind the iterator; the result lists those that stay.\<close>

fun handle_loop ::
    "('w, 'e) os \<Rightarrow> 'e builder \<Rightarrow> int list \<Rightarrow> 'w server \<Rightarrow> (int list \<times> 'w server) option" where
  "handle_loop os builder [] s = (case os_valid os (world s) of (_, w) \<Rightarrow> Some ([], s\<lparr>world := w\<rparr>))"
| "handle_loop os builder (fd # fds) s =
     (case os_valid os (world s) of (ok, w) \<Rightarrow>
      let s = s\<lparr>world := w\<rparr> in
      if \<not> ok then Some (fd # fds, s)
      else do {
        (keep, s) \<leftarrow> handle_connection os builder fd s;
        (rest, s) \<leftarrow> handle_loop os builder fds s;
        Some (if keep then fd # rest else rest, s)
      })"

definition handleQueriesAndCleanUpConnections ::
    "('w, 'e) os \<Rightarrow> 'e builder \<Rightarrow> 'w server \<Rightarrow> 'w exec option" where
  "handleQueriesAndCleanUpConnections os builder s =
     (case sockets s of
        [] \<Rightarrow> Some (Inl s)
      | serverSocket # fds \<Rightarrow> do {
          (kept, s) \<leftarrow> handle_loop os builder fds s;
          Some (Inr (s\<lparr>sockets := serverSocket # kept\<rparr>))
        })"

definition waitForSocketActivity :: "('w, 'e) os \<Rightarrow> 'w server \<Rightarrow> 'w exec" where
  "waitForSocketActivity os s =
     (case os_poll os (world s) (sockets s) of (r, w) \<Rightarrow>
      if - 1 = r then Inl (s\<lparr>world := w\<rparr>) else Inr (s\<lparr>world := w\<rparr>))"

text \<open>One iteration of the loop of \<open>start\<close>.\<close>

definition serve_round :: "('w, 'e) os \<Rightarrow> 'e builder \<Rightarrow> 'w server \<Rightarrow> 'w exec option" where
  "serve_round os builder s = do {
     r1 \<leftarrow> acceptNewClients os s;
     (case r1 of Inl s \<Rightarrow> Some (Inl s) | Inr s \<Rightarrow> do {
       r2 \<leftarrow> handleQueriesAndCleanUpConnections os builder s;
       (case r2 of Inl s \<Rightarrow> Some (Inl s) | Inr s \<Rightarrow> Some (waitForSocketActivity os s)) })
   }"

text \<open>Closing all sockets once the time source is invalid.\<close>

definition shut_down :: "('w, 'e) os \<Rightarrow> 'w server \<Rightarrow> 'w server" where
  "shut_down os s = (foldl (\<lambda>s fd. close_socket os fd s) s (sockets s))\<lparr>sockets := []\<rparr>"

text \<open>
  \<open>start\<close> does not return: \<open>Inr s\<close> is the state in which it sleeps forever.
\<close>

partial_function (option) Responder_start :: "('w, 'e) os \<Rightarrow> 'e builder \<Rightarrow> 'w server \<Rightarrow> 'w exec option" where
  "Responder_start os builder s =
     (case os_valid os (world s) of (ok, w) \<Rightarrow>
      let s = s\<lparr>world := w\<rparr> in
      if ok
      then Option.bind (serve_round os builder s)
             (\<lambda>r. case r of Inl s \<Rightarrow> Some (Inl s) | Inr s \<Rightarrow> Responder_start os builder s)
      else Some (Inr (shut_down os s)))"

end
