(* ===== verification/ResponderProps.thy ===== *)
theory ResponderProps
  imports Responder "HOL-Library.Multiset"
begin

text \<open>
  Correctness of the server: what it relies on from the message builder is a locale,
  interpreted by \<open>createResponse\<close>; one connection refines an abstract step, no call leaves the
  buffers, every accepted connection is accounted for, and the connection limit holds.
\<close>

section \<open>Contracts\<close>

text \<open>
  The documented behaviour of \<open>recv\<close>: it delivers at most as many bytes as asked for. The
  watcher seen through the readings satisfies the condition \<open>env_ok\<close>.
\<close>

definition os_ok :: "('e \<Rightarrow> bool) \<Rightarrow> ('w, 'e) os \<Rightarrow> bool" where
  "os_ok env_ok os \<longleftrightarrow>
     (\<forall>w fd n b w'. os_recv os w fd n = (Received b, w') \<longrightarrow> length b \<le> n) \<and>
     (\<forall>w. env_ok (fst (os_readings os w)))"

definition server_inv :: "'w server \<Rightarrow> bool" where
  "server_inv s \<longleftrightarrow> length (recvBuffer s) = maxSizeOfMessage \<and> length (sendBuffer s) = maxSizeOfMessage"

text \<open>The configuration and the socket list, which serving a connection leaves alone.\<close>

definition same_setup :: "'w server \<Rightarrow> 'w server \<Rightarrow> bool" where
  "same_setup s s' \<longleftrightarrow> ip s' = ip s \<and> port s' = port s \<and> maxConnections s' = maxConnections s \<and> sockets s' = sockets s"

section \<open>Receiving\<close>

text \<open>
  What arrives on a connection until \<open>recv\<close> fails, reports the end of the stream, or the
  space is used up.
\<close>

function recv_stream :: "('w, 'e) os \<Rightarrow> int \<Rightarrow> nat \<Rightarrow> 'w \<Rightarrow> bytes \<times> recv_result \<times> 'w" where
  "recv_stream os fd room w =
     (case os_recv os w fd room of (res, w') \<Rightarrow>
      case res of
        RecvError e \<Rightarrow> ([], res, w')
      | Received b \<Rightarrow>
          if b = [] \<or> room < length b then ([], res, w')
          else case recv_stream os fd (room - length b) w' of (bs, r, w'') \<Rightarrow> (b @ bs, r, w''))"
  by pat_completeness auto

termination recv_stream
  by (relation "measure (\<lambda>(_, _, room, _). room)") (auto simp: not_less neq_Nil_conv)

declare recv_stream.simps [simp del]

lemma recv_at_spec:
  assumes "os_ok env_ok os" and "length (recvBuffer s) = maxSizeOfMessage" and "n \<le> maxSizeOfMessage"
    and r: "os_recv os (world s) fd (maxSizeOfMessage - n) = (res, w)"
  shows "\<exists>buf. recv_at os fd n s = Some (res, s\<lparr>world := w, recvBuffer := buf\<rparr>) \<and>
    length buf = maxSizeOfMessage \<and> take n buf = take n (recvBuffer s) \<and>
    (\<forall>b. res = Received b \<longrightarrow> n + length b \<le> maxSizeOfMessage \<and> take (n + length b) buf = take n (recvBuffer s) @ b)"
proof (cases res)
  case (RecvError e)
  then show ?thesis using r assms(2) by (intro exI [of _ "recvBuffer s"]) (simp add: recv_at_def)
next
  case (Received b)
  have "length b \<le> maxSizeOfMessage - n" using assms(1) r Received unfolding os_ok_def by blast
  then have "n + length b \<le> length (recvBuffer s)" using assms(2,3) by simp
  from wr_bytes_in [OF this] show ?thesis
    using r Received assms(2,3) \<open>n + length b \<le> length (recvBuffer s)\<close> by (auto simp: recv_at_def)
qed

lemma recv_loop_stream:
  assumes ok: "os_ok env_ok os" and "length (recvBuffer s) = maxSizeOfMessage" and "n \<le> maxSizeOfMessage"
    and "recv_stream os fd (maxSizeOfMessage - n) (world s) = (bs, r, w)"
  shows "\<exists>buf. Option.bind (recv_at os fd n s) (\<lambda>(res, s). recv_loop os fd n res s) =
      Some (n + length bs, r, s\<lparr>world := w, recvBuffer := buf\<rparr>) \<and>
    length buf = maxSizeOfMessage \<and> n + length bs \<le> maxSizeOfMessage \<and>
    take (n + length bs) buf = take n (recvBuffer s) @ bs \<and> (\<forall>b. r = Received b \<longrightarrow> b = [])"
  using assms(2-)
proof (induction "maxSizeOfMessage - n" arbitrary: n s bs rule: less_induct)
  case less
  obtain res w1 where rv: "os_recv os (world s) fd (maxSizeOfMessage - n) = (res, w1)" by fastforce
  from recv_at_spec [OF ok less.prems(1,2) rv] obtain buf where
    at: "recv_at os fd n s = Some (res, s\<lparr>world := w1, recvBuffer := buf\<rparr>)"
    and buf: "length buf = maxSizeOfMessage" "take n buf = take n (recvBuffer s)"
    and got: "res = Received b \<Longrightarrow> n + length b \<le> maxSizeOfMessage \<and> take (n + length b) buf = take n (recvBuffer s) @ b" for b
    by blast
  note st = less.prems(3) [unfolded recv_stream.simps [of os fd "maxSizeOfMessage - n"] rv prod.case]
  show ?case
  proof (cases "\<exists>b. res = Received b \<and> b \<noteq> []")
    case False
    then have "bs = []" "r = res" "w = w1" "recv_loop os fd n res s' = Some (n, res, s')" for s'
      using st by (auto simp: recv_loop.simps split: recv_result.splits)
    then show ?thesis using at buf False less.prems(2) by auto
  next
    case True
    then obtain b where b: "res = Received b" "b \<noteq> []" by blast
    let ?s = "s\<lparr>world := w1, recvBuffer := buf\<rparr>" and ?n = "n + length b"
    have le: "?n \<le> maxSizeOfMessage" "n < maxSizeOfMessage"
      using got [OF b(1)] b(2) by (auto simp: neq_Nil_conv)
    have room: "\<not> maxSizeOfMessage - n < length b" using le by simp
    obtain bs' where tail: "recv_stream os fd (maxSizeOfMessage - ?n) w1 = (bs', r, w)" and bs: "bs = b @ bs'"
      using st b room by (auto split: prod.splits simp: diff_diff_left)
    have dec: "maxSizeOfMessage - ?n < maxSizeOfMessage - n" using le b(2) by (auto simp: neq_Nil_conv)
    from less.hyps [OF dec, of ?s bs'] tail le buf obtain buf' where
      "Option.bind (recv_at os fd ?n ?s) (\<lambda>(res, s). recv_loop os fd ?n res s) =
        Some (?n + length bs', r, s\<lparr>world := w, recvBuffer := buf'\<rparr>)"
      and "length buf' = maxSizeOfMessage" "?n + length bs' \<le> maxSizeOfMessage"
      and "take (?n + length bs') buf' = take ?n buf @ bs'" "\<forall>b. r = Received b \<longrightarrow> b = []"
      by auto
    then show ?thesis
      using at b le bs got [OF b(1)] by (auto simp: recv_loop.simps add.assoc)
  qed
qed

section \<open>One connection\<close>

text \<open>
  The abstract step of one connection, for a specification \<open>spec\<close> of the answers: whether it
  stays open, what is recorded of it, and the world afterwards.
\<close>

definition connection_spec ::
    "('w, 'e) os \<Rightarrow> ('e \<Rightarrow> nat \<Rightarrow> bytes \<Rightarrow> bytes option) \<Rightarrow> int \<Rightarrow> 'w \<Rightarrow> bool \<times> io_event list \<times> 'w" where
  "connection_spec os spec fd w =
     (case recv_stream os fd maxSizeOfMessage w of (q, res, w1) \<Rightarrow>
      if res \<noteq> RecvError EAGAIN \<and> res \<noteq> RecvError EWOULDBLOCK then (False, [Closed fd], os_close os w1 fd)
      else if q = [] then (True, [], w1)
      else case os_readings os w1 of (e, w2) \<Rightarrow>
        case spec e maxSizeOfMessage q of
          None \<Rightarrow> (False, [Query fd q, Closed fd], os_close os w2 fd)
        | Some m \<Rightarrow>
            (case os_send os w2 fd m of (r, w3) \<Rightarrow>
             if r = int (length m) then (True, [Query fd q, Sent fd m], w3)
             else (False, [Query fd q, Closed fd], os_close os w3 fd)))"

text \<open>
  What the server relies on from the object that creates the responses.
\<close>

locale response_builder =
  fixes builder :: "'e builder"
    and spec :: "'e \<Rightarrow> nat \<Rightarrow> bytes \<Rightarrow> bytes option"
    and env_ok :: "'e \<Rightarrow> bool"
  assumes builder_law: "env_ok e \<Longrightarrow> unat n \<le> length q \<Longrightarrow> unat mx \<le> length rb \<Longrightarrow>
    \<exists>r rb'. builder e (Some q) n (Some rb) mx = Some (r, Some rb') \<and>
      sent (spec e (unat mx) (take (unat n) q)) rb (r, rb')"
begin

lemma respond_refines:
  assumes ok: "os_ok env_ok os" and inv: "server_inv s" and n: "n \<le> maxSizeOfMessage"
    and q: "take n (recvBuffer s) = q" and e: "os_readings os (world s) = (e, w2)"
  shows "\<exists>keep s'. respond os builder fd n s = Some (keep, s') \<and> server_inv s' \<and> same_setup s s' \<and>
    (case spec e maxSizeOfMessage q of
       None \<Rightarrow> \<not> keep \<and> trace s' = trace s @ [Query fd q, Closed fd] \<and> world s' = os_close os w2 fd
     | Some m \<Rightarrow> (case os_send os w2 fd m of (r, w3) \<Rightarrow>
         if r = int (length m)
         then keep \<and> trace s' = trace s @ [Query fd q, Sent fd m] \<and> world s' = w3
         else \<not> keep \<and> trace s' = trace s @ [Query fd q, Closed fd] \<and> world s' = os_close os w3 fd))"
proof -
  have un: "unat (of_nat n :: u32) = n" "unat (of_nat maxSizeOfMessage :: u32) = maxSizeOfMessage"
    using n by (simp_all add: unat_of_nat size_consts)
  have env: "env_ok e" using ok e unfolding os_ok_def by (metis fst_conv)
  from builder_law [OF env, of "of_nat n" "recvBuffer s" "of_nat maxSizeOfMessage" "sendBuffer s"]
  obtain r rb' where b: "builder e (Some (recvBuffer s)) (of_nat n) (Some (sendBuffer s)) (of_nat maxSizeOfMessage) =
      Some (r, Some rb')" and s: "sent (spec e maxSizeOfMessage q) (sendBuffer s) (r, rb')"
    using inv n q unfolding un server_inv_def by auto
  show ?thesis
  proof (cases "spec e maxSizeOfMessage q")
    case None
    then show ?thesis using s inv q e b
      by (auto simp: respond_def sent_def close_socket_def server_inv_def same_setup_def)
  next
    case (Some m)
    obtain r' w3 where snd: "os_send os w2 fd m = (r', w3)" by fastforce
    from Some s have r: "r = int (length m)" "take (nat r) rb' = m" "length rb' = length (sendBuffer s)"
      by (auto simp: sent_def)
    then show ?thesis using Some inv q e b snd
      by (cases "r' = int (length m)") (auto simp: respond_def close_socket_def server_inv_def same_setup_def)
  qed
qed

lemma connection_refines:
  assumes ok: "os_ok env_ok os" and inv: "server_inv s"
    and spec: "connection_spec os spec fd (world s) = (keep, evs, w)"
  shows "\<exists>s'. handle_connection os builder fd s = Some (keep, s') \<and> server_inv s' \<and> same_setup s s' \<and>
    trace s' = trace s @ evs \<and> world s' = w"
proof -
  obtain q res w1 where st: "recv_stream os fd maxSizeOfMessage (world s) = (q, res, w1)" by (metis prod_cases3)
  from recv_loop_stream [OF ok, of s 0 fd q res w1] st inv obtain buf where
    rl: "Option.bind (recv_at os fd 0 s) (\<lambda>(res, s). recv_loop os fd 0 res s) =
      Some (length q, res, s\<lparr>world := w1, recvBuffer := buf\<rparr>)"
    and buf: "length buf = maxSizeOfMessage" "length q \<le> maxSizeOfMessage" "take (length q) buf = q"
    and nil: "\<forall>b. res = Received b \<longrightarrow> b = []"
    by (auto simp: server_inv_def)
  let ?s = "s\<lparr>world := w1, recvBuffer := buf\<rparr>"
  have hc: "handle_connection os builder fd s =
     (case res of
        Received b \<Rightarrow> if b = [] then Some (False, close_socket os fd ?s) else None
      | RecvError e \<Rightarrow>
          if e \<noteq> EAGAIN \<and> e \<noteq> EWOULDBLOCK then Some (False, close_socket os fd ?s)
          else if length q = 0 then Some (True, ?s)
          else respond os builder fd (length q) ?s)"
    using rl by (auto simp: handle_connection_def bind_eq_Some_conv)
  have inv': "server_inv ?s" "same_setup s ?s" using inv buf by (simp_all add: server_inv_def same_setup_def)
  show ?thesis
  proof (cases "(res = RecvError EAGAIN \<or> res = RecvError EWOULDBLOCK) \<and> q \<noteq> []")
    case False
    then show ?thesis
      using spec st nil inv' unfolding hc connection_spec_def
      by (auto simp: close_socket_def server_inv_def same_setup_def split: recv_result.splits if_splits)
  next
    case True
    obtain e w2 where e: "os_readings os w1 = (e, w2)" by fastforce
    have "handle_connection os builder fd s = respond os builder fd (length q) ?s"
      unfolding hc using True by auto
    with respond_refines [OF ok inv'(1), of "length q" q e w2 fd] buf e spec st True show ?thesis
      unfolding connection_spec_def
      by (auto simp: same_setup_def split: option.splits prod.splits if_splits)
  qed
qed

end

interpretation mb: response_builder "createResponse evp mt" "answer evp mt" "\<lambda>e. watcher_inv (id_watcher e)"
  for evp mt
  by unfold_locales (rule createResponse_sent)

text \<open>
  A query announces its own length, so that a well-formed query with more bytes behind it is
  not well-formed.
\<close>

lemma well_formed_query_not_prefix:
  assumes "well_formed_query evp q1" and "q2 \<noteq> []"
  shows "\<not> well_formed_query evp (q1 @ q2)"
proof
  assume wf: "well_formed_query evp (q1 @ q2)"
  have len: "38 \<le> length q1" "length q1 \<le> 32768" "length (q1 @ q2) \<le> 32768"
    using assms(1) wf by (auto simp: well_formed_query_def)
  have "take 4 (q1 @ q2) = take 4 q1" using len(1) by simp
  have size: "take 4 (header_bytes n ty fl) = size_field n" for n ty fl by (simp add: header_bytes_def)
  have "size_field (of_nat (length q)) = take 4 q" if "well_formed_query evp q" for q
  proof -
    have "take 4 (take 22 q) = size_field (of_nat (length q))"
      using that size unfolding well_formed_query_def by metis
    then show ?thesis by (simp add: min_def)
  qed
  then have "size_field (of_nat (length q1)) = size_field (of_nat (length (q1 @ q2)))"
    using assms(1) wf \<open>take 4 (q1 @ q2) = take 4 q1\<close> by metis
  then have "(of_nat (length q1) :: u32) = of_nat (length (q1 @ q2))" by (metis fromLE32_size_field)
  then have "unat (of_nat (length q1) :: u32) = unat (of_nat (length (q1 @ q2)) :: u32)" by (rule arg_cong)
  then have "length q1 = length (q1 @ q2)" using len by (simp add: unat_of_nat del: of_nat_add length_append)
  with assms(2) show False by simp
qed

text \<open>
  C6: serving one connection refines its abstract step. All bytes that \<open>recv\<close> delivers until
  it would block are taken together as one query; the connection is closed if the peer has
  closed it, on an error, or if these bytes have no answer; otherwise the message sent on this
  connection is exactly the answer to them, and the connection stays open only if it has been
  sent completely. No buffer is left. In particular a well-formed query is answered only if no
  further byte has arrived behind it: a peer that has sent a second message by then gets no
  answer to either of them, and its connection is closed.
\<close>

theorem handle_connection_refines:
  assumes "os_ok (\<lambda>e. watcher_inv (id_watcher e)) os" and "server_inv s"
    and "connection_spec os (answer evp mt) fd (world s) = (keep, evs, w)"
  shows "(\<exists>s'. handle_connection os (createResponse evp mt) fd s = Some (keep, s') \<and>
      server_inv s' \<and> sockets s' = sockets s \<and> trace s' = trace s @ evs \<and> world s' = w) \<and>
    (\<forall>q1 q2 res w1. recv_stream os fd maxSizeOfMessage (world s) = (q1 @ q2, res, w1) \<longrightarrow>
      well_formed_query evp q1 \<longrightarrow> q2 \<noteq> [] \<longrightarrow> \<not> keep \<and> (\<forall>m. Sent fd m \<notin> set evs))"
proof
  show "\<exists>s'. handle_connection os (createResponse evp mt) fd s = Some (keep, s') \<and>
      server_inv s' \<and> sockets s' = sockets s \<and> trace s' = trace s @ evs \<and> world s' = w"
    using mb.connection_refines [OF assms] by (auto simp: same_setup_def)
  show "\<forall>q1 q2 res w1. recv_stream os fd maxSizeOfMessage (world s) = (q1 @ q2, res, w1) \<longrightarrow>
      well_formed_query evp q1 \<longrightarrow> q2 \<noteq> [] \<longrightarrow> \<not> keep \<and> (\<forall>m. Sent fd m \<notin> set evs)"
    using assms(3) by (auto simp: connection_spec_def answer_def well_formed_query_not_prefix
        split: if_splits prod.splits)
qed

section \<open>Accounting for connections\<close>

fun accepted_of :: "io_event \<Rightarrow> int list" where
  "accepted_of (Accepted fd) = [fd]"
| "accepted_of _ = []"

fun closed_of :: "io_event \<Rightarrow> int list" where
  "closed_of (Closed fd) = [fd]"
| "closed_of _ = []"

definition accepted_fds :: "'w server \<Rightarrow> int multiset" where
  "accepted_fds s = mset (concat (map accepted_of (trace s)))"

definition closed_fds :: "'w server \<Rightarrow> int multiset" where
  "closed_fds s = mset (concat (map closed_of (trace s)))"

text \<open>
  The books of the server: its listening socket is first in the list, and the accepted
  connections are the ones closed and the ones in the list.
\<close>

definition accounted :: "int \<Rightarrow> 'w server \<Rightarrow> bool" where
  "accounted srv s \<longleftrightarrow> (\<exists>fds. sockets s = srv # fds \<and> accepted_fds s = closed_fds s + mset fds)"

lemma close_socket_simps [simp]:
  "sockets (close_socket os fd s) = sockets s" "maxConnections (close_socket os fd s) = maxConnections s"
  "accepted_fds (close_socket os fd s) = accepted_fds s" "closed_fds (close_socket os fd s) = add_mset fd (closed_fds s)"
  "recvBuffer (close_socket os fd s) = recvBuffer s" "sendBuffer (close_socket os fd s) = sendBuffer s"
  by (simp_all add: close_socket_def accepted_fds_def closed_fds_def)

lemma accepted_update [simp]:
  "accepted_fds (s\<lparr>world := w\<rparr>) = accepted_fds s" "closed_fds (s\<lparr>world := w\<rparr>) = closed_fds s"
  "accepted_fds (s\<lparr>sockets := fds\<rparr>) = accepted_fds s" "closed_fds (s\<lparr>sockets := fds\<rparr>) = closed_fds s"
  "accepted_fds (s\<lparr>trace := trace s @ [Accepted fd]\<rparr>) = add_mset fd (accepted_fds s)"
  "closed_fds (s\<lparr>trace := trace s @ [Accepted fd]\<rparr>) = closed_fds s"
  by (simp_all add: accepted_fds_def closed_fds_def)

lemma limit_reached_update [simp]:
  "limit_reached (s\<lparr>world := w\<rparr>) = limit_reached s" "limit_reached (s\<lparr>trace := tr\<rparr>) = limit_reached s"
  by (simp_all add: limit_reached_def)

text \<open>A rule for invariants of the accept loop.\<close>

abbreviation final :: "'w exec \<Rightarrow> 'w server" where
  "final r \<equiv> case r of Inl s \<Rightarrow> s | Inr s \<Rightarrow> s"

lemma accept_loop_invariant:
  assumes run: "accept_loop os srv s = Some r" and "P s"
    and world: "\<And>s w. P s \<Longrightarrow> P (s\<lparr>world := w\<rparr>)"
    and refuse: "\<And>s fd. P s \<Longrightarrow> P (close_socket os fd (s\<lparr>trace := trace s @ [Accepted fd]\<rparr>))"
    and admit: "\<And>s fd. P s \<Longrightarrow> \<not> limit_reached s \<Longrightarrow>
      P (s\<lparr>trace := trace s @ [Accepted fd], sockets := sockets s @ [fd]\<rparr>)"
  shows "P (final r)"
proof -
  have "os = os \<longrightarrow> srv = srv \<longrightarrow> P s \<longrightarrow> P (final r)"
  proof (rule accept_loop.raw_induct [where P = "\<lambda>os' srv' s r. os' = os \<longrightarrow> srv' = srv \<longrightarrow> P s \<longrightarrow> P (final r)", OF _ run],
      intro impI)
    fix loop :: "('a, 'b) os \<Rightarrow> int \<Rightarrow> 'a server \<Rightarrow> 'a exec option" and os' srv' s r
    assume ih: "\<And>os' srv' s r. loop os' srv' s = Some r \<Longrightarrow> os' = os \<longrightarrow> srv' = srv \<longrightarrow> P s \<longrightarrow> P (final r)"
      and "os' = os" "srv' = srv" and P: "P s"
      and body: "(case os_accept os' (world s) srv' of (res, w) \<Rightarrow> let s = s\<lparr>world := w\<rparr> in
        case res of AcceptError e \<Rightarrow> if e = EAGAIN \<or> e = EWOULDBLOCK then Some (Inr s)
          else if e = ECONNABORTED then loop os' srv' s else Some (Inl s)
        | Connection fd \<Rightarrow> let s = s\<lparr>trace := trace s @ [Accepted fd]\<rparr> in
          if limit_reached s then loop os' srv' (close_socket os' fd s)
          else case os_fcntl os' (world s) fd of (r, w) \<Rightarrow> let s = s\<lparr>world := w\<rparr> in
            if - 1 = r then loop os' srv' (close_socket os' fd s)
            else loop os' srv' (s\<lparr>sockets := sockets s @ [fd]\<rparr>)) = Some r"
    have swap: "s\<lparr>trace := tr, world := w\<rparr> = s\<lparr>world := w, trace := tr\<rparr>" for tr w by simp
    note next_state = world [OF P] refuse [OF world [OF P]] admit [OF world [OF P]]
    show "P (final r)"
      using body next_state \<open>os' = os\<close> \<open>srv' = srv\<close>
      by (auto simp: Let_def swap split: prod.splits accept_result.splits if_splits dest!: ih)
  qed
  with assms(2) show ?thesis by simp
qed

lemma accept_loop_accounted:
  assumes "accept_loop os srv s = Some r" and "accounted srv s"
  shows "accounted srv (final r)"
  using assms
proof (rule accept_loop_invariant)
qed (auto simp: accounted_def)

text \<open>What serving connections does to the books, whatever the builder and the system answer.\<close>

definition booked :: "int multiset \<Rightarrow> 'w server \<Rightarrow> 'w server \<Rightarrow> bool" where
  "booked fds s s' \<longleftrightarrow> accepted_fds s' = accepted_fds s \<and> closed_fds s' = closed_fds s + fds \<and>
     sockets s' = sockets s \<and> maxConnections s' = maxConnections s"

lemma booked_trans: "booked a s1 s2 \<Longrightarrow> booked b s2 s3 \<Longrightarrow> booked (a + b) s1 s3"
  by (simp add: booked_def ac_simps)

lemma recv_at_booked: "recv_at os fd n s = Some (res, s') \<Longrightarrow> booked {#} s s'"
  by (auto simp: recv_at_def booked_def accepted_fds_def closed_fds_def split: prod.splits recv_result.splits)

lemma recv_loop_booked: "recv_loop os fd n res s = Some (n', res', s') \<Longrightarrow> booked {#} s s'"
proof (induction os fd n res s arbitrary: n' res' s' rule: recv_loop.induct)
  case (1 os fd n e s)
  then show ?case by (simp add: recv_loop.simps booked_def)
next
  case (2 os fd n b s)
  show ?case
  proof (cases "b \<noteq> [] \<and> n < maxSizeOfMessage")
    case False
    then show ?thesis using 2(2) by (auto simp: recv_loop.simps(2) booked_def)
  next
    case True
    then obtain r s1 where "recv_at os fd (n + length b) s = Some (r, s1)"
      and "recv_loop os fd (n + length b) r s1 = Some (n', res', s')"
      using 2(2) by (auto simp: recv_loop.simps(2) bind_eq_Some_conv)
    with booked_trans [OF recv_at_booked 2(1) [OF True _ refl]] show ?thesis by fastforce
  qed
qed

lemma handle_connection_booked:
  assumes "handle_connection os builder fd s = Some (keep, s')"
  shows "booked (if keep then {#} else {#fd#}) s s'"
proof -
  obtain res1 s1 n res s2 where r: "recv_at os fd 0 s = Some (res1, s1)" "recv_loop os fd 0 res1 s1 = Some (n, res, s2)"
    using assms by (auto simp: handle_connection_def bind_eq_Some_conv)
  have "booked {#} s s2" using booked_trans [OF recv_at_booked [OF r(1)] recv_loop_booked [OF r(2)]] by simp
  moreover have "booked (if keep then {#} else {#fd#}) s2 s'"
    using assms r
    by (auto simp: handle_connection_def respond_def booked_def Let_def close_socket_def accepted_fds_def closed_fds_def
        split: recv_result.splits if_splits prod.splits option.splits)
  ultimately show ?thesis using booked_trans by fastforce
qed

lemma handle_loop_booked:
  assumes "handle_loop os builder fds s = Some (kept, s')"
  shows "\<exists>gone. booked gone s s' \<and> mset fds = mset kept + gone"
  using assms
proof (induction fds arbitrary: s kept s')
  case Nil
  then show ?case by (auto simp: booked_def split: prod.splits)
next
  case (Cons fd fds)
  obtain ok w where v: "os_valid os (world s) = (ok, w)" by fastforce
  show ?case
  proof (cases ok)
    case False
    then show ?thesis using Cons.prems v by (auto simp: booked_def)
  next
    case True
    then obtain keep s1 rest where c: "handle_connection os builder fd (s\<lparr>world := w\<rparr>) = Some (keep, s1)"
      and l: "handle_loop os builder fds s1 = Some (rest, s')" and k: "kept = (if keep then fd # rest else rest)"
      using Cons.prems v by (auto simp: bind_eq_Some_conv)
    from Cons.IH [OF l] obtain gone where g: "booked gone s1 s'" "mset fds = mset rest + gone" by blast
    have "booked (if keep then {#} else {#fd#}) s s1"
      using handle_connection_booked [OF c] by (simp add: booked_def)
    from booked_trans [OF this g(1)] g(2) k show ?thesis
      by (intro exI [of _ "(if keep then {#} else {#fd#}) + gone"]) auto
  qed
qed

lemma serve_round_invariant:
  assumes "serve_round os builder s = Some r" and "P s"
    and "\<And>s r. acceptNewClients os s = Some r \<Longrightarrow> P s \<Longrightarrow> P (final r)"
    and "\<And>s r. handleQueriesAndCleanUpConnections os builder s = Some r \<Longrightarrow> P s \<Longrightarrow> P (final r)"
    and "\<And>s w. P s \<Longrightarrow> P (s\<lparr>world := w\<rparr>)"
  shows "P (final r)"
proof -
  obtain r1 where r1: "acceptNewClients os s = Some r1" using assms(1) by (auto simp: serve_round_def bind_eq_Some_conv)
  have P1: "P (final r1)" using assms(3) [OF r1 assms(2)] .
  show ?thesis
  proof (cases r1)
    case (Inl s1)
    then show ?thesis using assms(1) r1 P1 by (simp add: serve_round_def)
  next
    case (Inr s1)
    then obtain r2 where r2: "handleQueriesAndCleanUpConnections os builder s1 = Some r2"
      using assms(1) r1 by (auto simp: serve_round_def bind_eq_Some_conv)
    have "P (final r2)" using assms(4) [OF r2] P1 Inr by simp
    then show ?thesis
      using assms(1) r1 r2 Inr assms(5)
      by (auto simp: serve_round_def waitForSocketActivity_def split: sum.splits prod.splits if_splits)
  qed
qed

lemma handle_booked:
  assumes "handleQueriesAndCleanUpConnections os builder s = Some r" and "sockets s = srv # fds"
  shows "\<exists>kept gone. sockets (final r) = srv # kept \<and> mset fds = mset kept + gone \<and>
    accepted_fds (final r) = accepted_fds s \<and> closed_fds (final r) = closed_fds s + gone \<and>
    maxConnections (final r) = maxConnections s"
  using assms by (auto simp: handleQueriesAndCleanUpConnections_def bind_eq_Some_conv booked_def dest!: handle_loop_booked)

lemma serve_round_accounted:
  assumes "serve_round os builder s = Some r" and "accounted srv s"
  shows "accounted srv (final r)"
  using assms
proof (rule serve_round_invariant)
  show "accounted srv (final r)" if "acceptNewClients os s = Some r" "accounted srv s" for s r
    using that accept_loop_accounted [of os srv s r] by (auto simp: acceptNewClients_def accounted_def)
  show "accounted srv (final r)" if "handleQueriesAndCleanUpConnections os builder s = Some r" "accounted srv s" for s r
    using that handle_booked [OF that(1)] by (fastforce simp: accounted_def)
qed (simp add: accounted_def)

section \<open>The connection limit\<close>

text \<open>The listening socket and at most \<open>maxConnections\<close> clients.\<close>

definition within_limit :: "int \<Rightarrow> 'w server \<Rightarrow> bool" where
  "within_limit k s \<longleftrightarrow> maxConnections s = k \<and> 0 \<le> k \<and> k < 2 ^ 31 \<and> length (sockets s) \<le> nat k + 1"

lemma limit_reached_iff:
  assumes "within_limit k s"
  shows "limit_reached s \<longleftrightarrow> nat (maxConnections s) < length (sockets s)"
proof -
  have "unat (word_of_int (maxConnections s) :: u64) = nat (maxConnections s)"
    using assms by (simp add: within_limit_def unsigned_of_int take_bit_int_eq_self)
  moreover have "unat (of_nat (length (sockets s)) :: u64) = length (sockets s)"
  proof -
    have "length (sockets s) < 2 ^ 64" using assms by (auto simp: within_limit_def)
    then show ?thesis by (simp add: unat_of_nat)
  qed
  ultimately show ?thesis by (simp add: limit_reached_def word_less_nat_alt)
qed

lemma serve_round_limit:
  assumes "serve_round os builder s = Some r" and "within_limit k s"
  shows "within_limit k (final r)"
  using assms
proof (rule serve_round_invariant)
  show "within_limit k (final r)" if "acceptNewClients os s = Some r" "within_limit k s" for s r
  proof (cases "sockets s")
    case Nil
    then show ?thesis using that by (auto simp: acceptNewClients_def)
  next
    case (Cons srv fds)
    then have "accept_loop os srv s = Some r" using that(1) by (simp add: acceptNewClients_def)
    then show ?thesis using that(2)
    proof (rule accept_loop_invariant)
      show "within_limit k (s\<lparr>trace := trace s @ [Accepted fd], sockets := sockets s @ [fd]\<rparr>)"
        if "within_limit k s" "\<not> limit_reached s" for s fd
        using that limit_reached_iff [OF that(1)] by (simp add: within_limit_def)
    qed (simp_all add: within_limit_def)
  qed
  show "within_limit k (final r)" if run: "handleQueriesAndCleanUpConnections os builder s = Some r" "within_limit k s" for s r
  proof (cases "sockets s")
    case Nil
    then show ?thesis using run by (auto simp: handleQueriesAndCleanUpConnections_def)
  next
    case (Cons srv fds)
    from handle_booked [OF run(1) this] obtain kept gone where
      k: "sockets (final r) = srv # kept" "mset fds = mset kept + gone" "maxConnections (final r) = maxConnections s" by blast
    have "length kept \<le> length fds" by (metis k(2) le_add1 size_mset size_union)
    with k Cons run(2) show ?thesis by (simp add: within_limit_def)
  qed
qed (simp add: within_limit_def)

section \<open>Properties of the server\<close>

text \<open>The states at the head of the main loop.\<close>

inductive serving :: "('w, 'e) os \<Rightarrow> 'e builder \<Rightarrow> 'w server \<Rightarrow> 'w server \<Rightarrow> bool" for os builder s0 where
  begin_serving: "serving os builder s0 s0"
| next_round: "serving os builder s0 s \<Longrightarrow> os_valid os (world s) = (True, w) \<Longrightarrow>
    serve_round os builder (s\<lparr>world := w\<rparr>) = Some (Inr s') \<Longrightarrow> serving os builder s0 s'"

lemma accounted_start: "sockets s = [srv] \<Longrightarrow> trace s = [] \<Longrightarrow> accounted srv s"
  by (simp add: accounted_def accepted_fds_def closed_fds_def)

lemma world_update [simp]:
  "accounted srv (s\<lparr>world := w\<rparr>) = accounted srv s" "within_limit k (s\<lparr>world := w\<rparr>) = within_limit k s"
  by (simp_all add: accounted_def within_limit_def)

text \<open>
  C7: no connection is lost or closed twice. After any number of rounds, whatever the clients
  and the operating system do, the accepted connections are exactly the closed ones
  together with those in the list, as multisets, and the listening socket stays first.
\<close>

theorem server_connections_accounted:
  assumes "serving os builder s0 s" and "sockets s0 = [srv]" and "trace s0 = []"
  shows "\<exists>fds. sockets s = srv # fds \<and> accepted_fds s = closed_fds s + mset fds"
proof -
  have "accounted srv s" using assms
  proof induction
    case begin_serving
    then show ?case by (rule accounted_start)
  next
    case (next_round s w s')
    then show ?case using serve_round_accounted [of os builder "s\<lparr>world := w\<rparr>" "Inr s'" srv] by simp
  qed
  then show ?thesis by (simp add: accounted_def)
qed

text \<open>
  C21: with a limit that is not negative there are never more client connections than it
  allows, beside the listening socket.
\<close>

theorem server_connection_limit:
  assumes "serving os builder s0 s" and "sockets s0 = [srv]" and "0 \<le> maxConnections s0" and "maxConnections s0 < 2 ^ 31"
  shows "int (length (sockets s)) \<le> maxConnections s0 + 1"
proof -
  have "within_limit (maxConnections s0) s" using assms
  proof induction
    case begin_serving
    then show ?case by (simp add: within_limit_def)
  next
    case (next_round s w s')
    then show ?case
      using serve_round_limit [of os builder "s\<lparr>world := w\<rparr>" "Inr s'" "maxConnections s0"] by simp
  qed
  then show ?thesis unfolding within_limit_def by linarith
qed

text \<open>
  A negative limit is no limit: the unsigned comparison is false for every number of
  sockets that a process can have.
\<close>

theorem negative_limit_never_reached:
  assumes "- (2 ^ 31) \<le> maxConnections s" and "maxConnections s < 0" and "length (sockets s) \<le> 2 ^ 63"
  shows "\<not> limit_reached s"
proof -
  have "uint (word_of_int (maxConnections s) :: u64) = maxConnections s mod 2 ^ 64"
    by (simp add: uint_word_of_int)
  also have "\<dots> = maxConnections s + 2 ^ 64"
  proof -
    have "(maxConnections s + 2 ^ 64) mod 2 ^ 64 = maxConnections s + 2 ^ 64"
      using assms(1,2) by (intro mod_pos_pos_trivial) simp_all
    then show ?thesis by simp
  qed
  finally have "2 ^ 64 - 2 ^ 31 \<le> uint (word_of_int (maxConnections s) :: u64)" using assms(1) by simp
  moreover have "uint (of_nat (length (sockets s)) :: u64) \<le> 2 ^ 63"
  proof -
    have "length (sockets s) < 2 ^ 64" using assms(3) by (rule le_less_trans) simp
    then have "unat (of_nat (length (sockets s)) :: u64) = length (sockets s)" by (simp add: unat_of_nat)
    then show ?thesis using assms(3) by (simp only: uint_nat) (simp flip: of_nat_le_iff)
  qed
  ultimately show ?thesis by (simp add: limit_reached_def word_less_def)
qed

lemma close_all:
  "sockets (foldl (\<lambda>s fd. close_socket os fd s) s fds) = sockets s"
  "trace (foldl (\<lambda>s fd. close_socket os fd s) s fds) = trace s @ map Closed fds"
  by (induction fds arbitrary: s) (simp_all add: close_socket_def)

lemma shut_down_simps:
  "sockets (shut_down os s) = []" "trace (shut_down os s) = trace s @ map Closed (sockets s)"
  "accepted_fds (shut_down os s) = accepted_fds s" "closed_fds (shut_down os s) = closed_fds s + mset (sockets s)"
proof -
  show t: "sockets (shut_down os s) = []" "trace (shut_down os s) = trace s @ map Closed (sockets s)"
    by (simp_all add: shut_down_def close_all)
  have "concat (map accepted_of (map Closed fds)) = []" "concat (map closed_of (map Closed fds)) = fds" for fds
    by (induction fds) simp_all
  then show "accepted_fds (shut_down os s) = accepted_fds s" "closed_fds (shut_down os s) = closed_fds s + mset (sockets s)"
    by (simp_all only: accepted_fds_def closed_fds_def t map_append concat_append mset_append mset.simps) simp_all
qed

text \<open>
  As soon as the time source is found invalid at the head of the main loop, the server
  closes all sockets, the listening one included, and does nothing else: no connection is
  accepted, no query is read and nothing is sent any more.
\<close>

theorem Responder_start_invalid:
  assumes "os_valid os (world s) = (False, w)"
  shows "\<exists>s'. Responder_start os builder s = Some (Inr s') \<and> sockets s' = [] \<and>
    trace s' = trace s @ map Closed (sockets s)"
  using assms by (subst Responder_start.simps) (simp add: shut_down_simps)

text \<open>
  C18: when the server has stopped because of an invalid time source, every connection ever
  accepted and the listening socket have been closed, each exactly once.
\<close>

theorem Responder_start_closes_all:
  fixes os :: "('w, 'e) os"
  assumes run: "Responder_start os builder s = Some (Inr s')" and "sockets s = [srv]" and "trace s = []"
  shows "sockets s' = [] \<and> closed_fds s' = add_mset srv (accepted_fds s')"
proof -
  let ?P = "\<lambda>(os :: ('w, 'e) os) (builder :: 'e builder) s (r :: 'w exec). \<forall>s'. accounted srv s \<longrightarrow> r = Inr s' \<longrightarrow>
    sockets s' = [] \<and> closed_fds s' = add_mset srv (accepted_fds s')"
  have "?P os builder s (Inr s')"
  proof (rule Responder_start.raw_induct [where P = ?P, OF _ run], intro allI impI)
    fix loop :: "('w, 'e) os \<Rightarrow> 'e builder \<Rightarrow> 'w server \<Rightarrow> 'w exec option" and os builder s r s'
    assume ih: "\<And>os builder s r. loop os builder s = Some r \<Longrightarrow> ?P os builder s r"
      and acc: "accounted srv s" and r: "r = Inr s'"
      and body: "(case os_valid os (world s) of (ok, w) \<Rightarrow> let s = s\<lparr>world := w\<rparr> in
        if ok then Option.bind (serve_round os builder s)
          (\<lambda>r. case r of Inl s \<Rightarrow> Some (Inl s) | Inr s \<Rightarrow> loop os builder s)
        else Some (Inr (shut_down os s))) = Some r"
    obtain ok w where v: "os_valid os (world s) = (ok, w)" by fastforce
    show "sockets s' = [] \<and> closed_fds s' = add_mset srv (accepted_fds s')"
    proof (cases ok)
      case False
      then have "s' = shut_down os (s\<lparr>world := w\<rparr>)" using body v r by simp
      then show ?thesis using acc by (auto simp: shut_down_simps accounted_def)
    next
      case True
      then obtain y where "serve_round os builder (s\<lparr>world := w\<rparr>) = Some y"
        and "(case y of Inl s \<Rightarrow> Some (Inl s) | Inr s \<Rightarrow> loop os builder s) = Some r"
        using body v by (auto simp: bind_eq_Some_conv)
      then obtain s1 where s1: "serve_round os builder (s\<lparr>world := w\<rparr>) = Some (Inr s1)"
        and l: "loop os builder s1 = Some r"
        using r by (cases y) auto
      have "accounted srv s1" using serve_round_accounted [OF s1] acc by simp
      with ih [OF l] r show ?thesis by blast
    qed
  qed
  with accounted_start [OF assms(2,3)] show ?thesis by blast
qed

section \<open>Progress\<close>

text \<open>
  The kernel's queue of pending connections is finite: a measure \<open>pending\<close> of the world
  decreases with each accepted or aborted connection, and handling one does not refill it.
\<close>

definition finite_backlog :: "('w, 'e) os \<Rightarrow> int \<Rightarrow> ('w \<Rightarrow> nat) \<Rightarrow> bool" where
  "finite_backlog os srv pending \<longleftrightarrow>
     (\<forall>w res w'. os_accept os w srv = (res, w') \<longrightarrow>
        res \<noteq> AcceptError EAGAIN \<longrightarrow> res \<noteq> AcceptError EWOULDBLOCK \<longrightarrow> pending w' < pending w) \<and>
     (\<forall>w fd. pending (snd (os_fcntl os w fd)) \<le> pending w) \<and>
     (\<forall>w fd. pending (os_close os w fd) \<le> pending w)"

lemma accept_loop_returns:
  assumes "finite_backlog os srv pending"
  shows "\<exists>r. accept_loop os srv s = Some r"
proof (induction "pending (world s)" arbitrary: s rule: less_induct)
  case less
  obtain res w where a: "os_accept os (world s) srv = (res, w)" by fastforce
  show ?case
  proof (cases "res = AcceptError EAGAIN \<or> res = AcceptError EWOULDBLOCK")
    case True
    then show ?thesis using a by (subst accept_loop.simps) auto
  next
    case False
    have dec: "pending w < pending (world s)" using assms a False unfolding finite_backlog_def by blast
    define r' w2 where "r' fd = fst (os_fcntl os w fd)" and "w2 fd = snd (os_fcntl os w fd)" for fd
    then have f: "os_fcntl os w fd = (r' fd, w2 fd)" for fd by simp
    have "pending (w2 fd) \<le> pending w" "pending (os_close os v fd) \<le> pending v" for fd v
      using assms f unfolding finite_backlog_def by (metis snd_conv)+
    then have "pending (os_close os w fd) < pending (world s)" "pending (os_close os (w2 fd) fd) < pending (world s)"
      "pending (w2 fd) < pending (world s)" for fd
      using dec by (meson le_less_trans order_trans)+
    with dec less f a show ?thesis
      by (subst accept_loop.simps) (simp add: Let_def close_socket_def split: accept_result.splits)
  qed
qed

lemma accept_loop_server_inv: "accept_loop os srv s = Some r \<Longrightarrow> server_inv s \<Longrightarrow> server_inv (final r)"
  by (erule accept_loop_invariant) (simp_all add: server_inv_def)

context response_builder
begin

lemma handle_loop_returns:
  assumes ok: "os_ok env_ok os" and "server_inv s"
  shows "\<exists>kept s'. handle_loop os builder fds s = Some (kept, s') \<and> server_inv s'"
  using assms(2)
proof (induction fds arbitrary: s)
  case Nil
  then show ?case by (simp add: server_inv_def split: prod.splits)
next
  case (Cons fd fds)
  obtain v w where v: "os_valid os (world s) = (v, w)" by fastforce
  have inv: "server_inv (s\<lparr>world := w\<rparr>)" using Cons.prems by (simp add: server_inv_def)
  obtain keep evs w' where "connection_spec os spec fd (world (s\<lparr>world := w\<rparr>)) = (keep, evs, w')" by (metis prod_cases3)
  from connection_refines [OF ok inv this] obtain s1 where
    c: "handle_connection os builder fd (s\<lparr>world := w\<rparr>) = Some (keep, s1)" and "server_inv s1" by blast
  from Cons.IH [OF this(2)] c v inv show ?case by (cases v) auto
qed

lemma serve_round_returns:
  assumes "os_ok env_ok os" and "finite_backlog os srv pending" and "server_inv s" and "sockets s = srv # fds"
  shows "\<exists>r. serve_round os builder s = Some r \<and> server_inv (final r)"
proof -
  obtain r1 where r1: "acceptNewClients os s = Some r1" and i1: "server_inv (final r1)"
    using accept_loop_returns [OF assms(2)] accept_loop_server_inv assms(3,4)
    by (fastforce simp: acceptNewClients_def)
  show ?thesis
  proof (cases r1)
    case (Inl s1)
    with r1 i1 show ?thesis by (simp add: serve_round_def)
  next
    case (Inr s1)
    have "\<exists>r2. handleQueriesAndCleanUpConnections os builder s1 = Some r2 \<and> server_inv (final r2)"
    proof (cases "sockets s1")
      case Nil
      then show ?thesis using i1 Inr by (simp add: handleQueriesAndCleanUpConnections_def)
    next
      case (Cons a list)
      then show ?thesis
        using handle_loop_returns [OF assms(1), of s1 list] i1 Inr
        by (auto simp: handleQueriesAndCleanUpConnections_def server_inv_def)
    qed
    then obtain r2 where r2: "handleQueriesAndCleanUpConnections os builder s1 = Some r2" "server_inv (final r2)" by blast
    show ?thesis using r1 r2 Inr
      by (cases r2) (auto simp: serve_round_def waitForSocketActivity_def server_inv_def split: prod.splits)
  qed
qed

end

text \<open>
  C8: every round of the main loop returns and stays inside the receive and send buffers, for
  all queries and all answers of the operating system, provided that \<open>recv\<close> delivers at most
  the requested number of bytes and that the queue of pending connections is finite.
\<close>

theorem serve_round_safe:
  assumes "os_ok (\<lambda>e. watcher_inv (id_watcher e)) os" and "finite_backlog os srv pending"
    and "server_inv s" and "sockets s = srv # fds"
  shows "\<exists>r. serve_round os (createResponse evp mt) s = Some r \<and>
    server_inv (case r of Inl s' \<Rightarrow> s' | Inr s' \<Rightarrow> s')"
  by (rule mb.serve_round_returns [OF assms])

text \<open>
  C39: \<open>setupServer\<close> gives the address list back on every exit; it leaves the listening socket
  open and first in the list exactly if it succeeds, and closes it on every failure after
  it was opened.
\<close>

theorem setupServer_resources:
  assumes "setupServer n s = (ok, s', evs)" and "sockets s = []"
  shows "(\<exists>pre. evs = pre @ [AddrinfoFreed] \<and> AddrinfoObtained \<in> set pre \<and> AddrinfoFreed \<notin> set pre \<or> evs = []) \<and>
    (ok \<longrightarrow> sockets s' = [socket_result n] \<and> evs = [AddrinfoObtained, SocketOpened (socket_result n), AddrinfoFreed]) \<and>
    (\<not> ok \<longrightarrow> s' = s \<and> (\<forall>fd. SocketOpened fd \<in> set evs \<longrightarrow> SocketClosed fd \<in> set evs))"
  using assms by (auto simp: setupServer_def Let_def split: if_splits)

section \<open>A concrete system\<close>

text \<open>
  A small operating system for examples: the world holds the number of checks for which the
  time source stays valid, the pending connections and the data still to be received.
\<close>

type_synonym sample_world = "nat \<times> int list \<times> bytes list"

definition sample_os :: "(sample_world, reply_env) os" where
  "sample_os = \<lparr>
     os_valid = (\<lambda>(n, p, i). (0 < n, (n - 1, p, i))),
     os_accept = (\<lambda>(n, p, i) _. case p of [] \<Rightarrow> (AcceptError EAGAIN, (n, p, i)) | fd # fds \<Rightarrow> (Connection fd, (n, fds, i))),
     os_fcntl = (\<lambda>w _. (0, w)),
     os_recv = (\<lambda>(n, p, i) _ len. case i of [] \<Rightarrow> (RecvError EAGAIN, (n, p, i)) | b # bs \<Rightarrow> (Received (take len b), (n, p, bs))),
     os_send = (\<lambda>w _ m. (int (length m), w)),
     os_close = (\<lambda>w _. w),
     os_poll = (\<lambda>w _. (1, w)),
     os_readings = (\<lambda>w. (sample_env, w))\<rparr>"

definition sample_server :: "int \<Rightarrow> sample_world \<Rightarrow> sample_world server" where
  "sample_server k w = (Responder_new ''localhost'' ''2705'' k
     (replicate maxSizeOfMessage 0) (replicate maxSizeOfMessage 0) w)\<lparr>sockets := [3]\<rparr>"

lemma sample_os_ok: "os_ok (\<lambda>e. watcher_inv (id_watcher e)) sample_os"
  by (auto simp: os_ok_def sample_os_def sample_env_inv split: list.splits)

lemma sample_backlog: "finite_backlog sample_os 3 (\<lambda>(n, p, i). length p)"
  by (auto simp: finite_backlog_def sample_os_def split: list.splits)

lemma sample_server_inv: "server_inv (sample_server k w)"
  by (simp add: sample_server_def Responder_new_def server_inv_def)

text \<open>With a limit of one, the second of two pending connections is refused.\<close>

definition sample_after :: "sample_world server" where
  "sample_after = (sample_server 1 (0, [], []))\<lparr>sockets := [3, 7], trace := [Accepted 7, Accepted 8, Closed 8]\<rparr>"

lemma sample_round:
  "serve_round sample_os (createResponse sample_digest sample_timer) (sample_server 1 (2, [7, 8], [])) = Some (Inr sample_after)"
proof -
  let ?s = "\<lambda>w. sample_server 1 w"
  have "accept_loop sample_os 3 (?s (2, [7, 8], [])) =
    Some (Inr ((?s (2, [], []))\<lparr>sockets := [3, 7], trace := [Accepted 7, Accepted 8, Closed 8]\<rparr>))"
    by (simp add: accept_loop.simps sample_server_def Responder_new_def sample_os_def limit_reached_def close_socket_def)
  then show ?thesis
    by (simp add: serve_round_def acceptNewClients_def handleQueriesAndCleanUpConnections_def waitForSocketActivity_def
       sample_server_def Responder_new_def sample_os_def handle_connection_def recv_at_def recv_loop.simps sample_after_def)
qed

lemma sample_serving:
  "serving sample_os (createResponse sample_digest sample_timer) (sample_server 1 (3, [7, 8], [])) sample_after"
proof (rule next_round [OF begin_serving])
  show "os_valid sample_os (world (sample_server 1 (3, [7, 8], []))) = (True, (2, [7, 8], []))"
    by (simp add: sample_os_def sample_server_def Responder_new_def)
  show "serve_round sample_os (createResponse sample_digest sample_timer)
      ((sample_server 1 (3, [7, 8], []))\<lparr>world := (2, [7, 8], [])\<rparr>) = Some (Inr sample_after)"
    using sample_round by (simp add: sample_server_def Responder_new_def)
qed

theorem server_connections_accounted_witness:
  "\<exists>fds. sockets sample_after = 3 # fds \<and> accepted_fds sample_after = closed_fds sample_after + mset fds"
  using server_connections_accounted [OF sample_serving, of 3] by (simp add: sample_server_def Responder_new_def)

theorem server_connection_limit_witness: "int (length (sockets sample_after)) \<le> 2"
  using server_connection_limit [OF sample_serving, of 3] by (simp add: sample_server_def Responder_new_def)

theorem negative_limit_never_reached_witness: "\<not> limit_reached (sample_server (- 1) (0, [], []))"
  by (rule negative_limit_never_reached) (simp_all add: sample_server_def Responder_new_def)

theorem Responder_start_invalid_witness:
  "\<exists>s'. Responder_start sample_os (createResponse sample_digest sample_timer) sample_after = Some (Inr s') \<and>
     trace s' = [Accepted 7, Accepted 8, Closed 8, Closed 3, Closed 7]"
  using Responder_start_invalid [of sample_os sample_after "(0, [], [])" "createResponse sample_digest sample_timer"]
  by (auto simp: sample_after_def sample_os_def sample_server_def Responder_new_def)

theorem Responder_start_closes_all_witness:
  "\<exists>s'. Responder_start sample_os (createResponse sample_digest sample_timer) (sample_server 1 (3, [7, 8], [])) =
     Some (Inr s') \<and> sockets s' = [] \<and> closed_fds s' = add_mset 3 (accepted_fds s')"
proof -
  let ?b = "createResponse sample_digest sample_timer" and ?s = "sample_server 1 (3, [7, 8], [])"
  have w: "?s\<lparr>world := (2, [7, 8], [])\<rparr> = sample_server 1 (2, [7, 8], [])" "world ?s = (3, [7, 8], [])"
    "world sample_after = (0, [], [])"
    by (simp_all add: sample_server_def Responder_new_def sample_after_def)
  have v: "os_valid sample_os (3, [7, 8], []) = (True, (2, [7, 8], []))" "os_valid sample_os (0, [], []) = (False, (0, [], []))"
    by (simp_all add: sample_os_def)
  have "Responder_start sample_os ?b sample_after = Some (Inr (shut_down sample_os (sample_after\<lparr>world := (0, [], [])\<rparr>)))"
    by (subst Responder_start.simps) (simp add: w v)
  then obtain s' where "Responder_start sample_os ?b sample_after = Some (Inr s')" by blast
  then have run: "Responder_start sample_os ?b ?s = Some (Inr s')"
    by (subst Responder_start.simps) (simp add: w v sample_round)
  from Responder_start_closes_all [OF this, of 3] run show ?thesis
    by (simp add: sample_server_def Responder_new_def)
qed

theorem serve_round_safe_witness:
  "\<exists>r. serve_round sample_os (createResponse sample_digest sample_timer) (sample_server 1 (2, [7, 8], [])) = Some r \<and>
     server_inv (case r of Inl s' \<Rightarrow> s' | Inr s' \<Rightarrow> s')"
  by (rule serve_round_safe [OF sample_os_ok sample_backlog sample_server_inv, of _ _ "[]"])
    (simp add: sample_server_def)

definition sample_net :: net where
  "sample_net = \<lparr>gai_result = 0, gai_addresses = 1, socket_result = 3, fcntl_result = 0, setsockopt_result = 0,
     bind_result = - 1, listen_result = 0\<rparr>"

theorem setupServer_resources_witness:
  "setupServer sample_net (Responder_new [] [] 1 [] [] ()) =
     (False, Responder_new [] [] 1 [] [] (), [AddrinfoObtained, SocketOpened 3, SocketClosed 3, AddrinfoFreed])"
  using setupServer_resources [of sample_net "Responder_new [] [] 1 [] [] ()" False]
  by (simp add: setupServer_def sample_net_def)

text \<open>The sample query arrives in two pieces and is answered.\<close>

lemma sample_stream:
  "recv_stream sample_os 7 maxSizeOfMessage (5, [], [take 10 sample_query, drop 10 sample_query]) =
     (sample_query, RecvError EAGAIN, (5, [], []))"
  using sample_query_facts(1)
  by (simp add: recv_stream.simps sample_os_def size_consts append_take_drop_id)
    (auto simp: append_take_drop_id)

lemma sample_pipelined:
  "recv_stream sample_os 7 maxSizeOfMessage (5, [], [sample_query, sample_query]) =
     (sample_query @ sample_query, RecvError EAGAIN, (5, [], []))"
  using sample_query_facts(1) by (auto simp: recv_stream.simps sample_os_def size_consts)

text \<open>A second query that arrives behind the first one closes the connection.\<close>

theorem handle_connection_refines_witness:
  "(\<exists>s' m. handle_connection sample_os (createResponse sample_digest sample_timer) 7
      (sample_server 1 (5, [], [take 10 sample_query, drop 10 sample_query])) = Some (True, s') \<and>
    answer sample_digest sample_timer sample_env maxSizeOfMessage sample_query = Some m \<and>
    trace s' = [Query 7 sample_query, Sent 7 m]) \<and>
   (\<exists>evs w. connection_spec sample_os (answer sample_digest sample_timer) 7 (5, [], [sample_query, sample_query]) =
      (False, evs, w) \<and> (\<forall>m. Sent 7 m \<notin> set evs))"
proof
  let ?s = "sample_server 1 (5, [], [sample_query, sample_query])"
  obtain keep evs w where c: "connection_spec sample_os (answer sample_digest sample_timer) 7 (world ?s) = (keep, evs, w)"
    by (metis prod_cases3)
  have "sample_query \<noteq> []" using sample_query_facts(1) by auto
  with handle_connection_refines [OF sample_os_ok sample_server_inv c, THEN conjunct2, rule_format,
      OF _ sample_query_facts(2), of sample_query]
  have "\<not> keep \<and> (\<forall>m. Sent 7 m \<notin> set evs)"
    by (auto simp: sample_server_def Responder_new_def sample_pipelined)
  with c show "\<exists>evs w. connection_spec sample_os (answer sample_digest sample_timer) 7 (5, [], [sample_query, sample_query]) =
      (False, evs, w) \<and> (\<forall>m. Sent 7 m \<notin> set evs)"
    by (intro exI [of _ evs] exI [of _ w]) (simp add: sample_server_def Responder_new_def)
next
  let ?w = "(5, [], [take 10 sample_query, drop 10 sample_query])"
  have "acceptable maxSizeOfMessage [(0x91, []), (0x92, [])]"
    using sample_query_facts(5) by (simp add: acceptable_def size_consts)
  then obtain m where m: "answer sample_digest sample_timer sample_env maxSizeOfMessage sample_query = Some m"
    unfolding answer_def sample_query_facts(4) option.case Let_def
    by (simp add: sample_query_facts(2) sealed_def Let_def computeMD5_def sample_digest_def size_consts)
  have ne: "sample_query \<noteq> []" using sample_query_facts(1) by auto
  have "connection_spec sample_os (answer sample_digest sample_timer) 7 (world (sample_server 1 ?w)) =
      (True, [Query 7 sample_query, Sent 7 m], (5, [], []))"
    using m ne sample_stream by (simp add: connection_spec_def sample_server_def Responder_new_def) (simp add: sample_os_def)
  from handle_connection_refines [OF sample_os_ok sample_server_inv this] m
  show "\<exists>s' m. handle_connection sample_os (createResponse sample_digest sample_timer) 7 (sample_server 1 ?w) =
      Some (True, s') \<and> answer sample_digest sample_timer sample_env maxSizeOfMessage sample_query = Some m \<and>
    trace s' = [Query 7 sample_query, Sent 7 m]"
    by (auto simp: sample_server_def Responder_new_def)
qed

end
