(* ===== verification/NHA_Main.thy ===== *)
theory NHA_Main
  imports ConfigurationParser ResponderProps
begin

text \<open>
  \<open>src/src/main.cpp\<close>: the start-up of the daemon. Its result is an exit code, undefined
  behaviour of a component, or the objects with which \<open>responder.start()\<close> is entered; beside
  it, the notifications sent to systemd are recorded. Texts on standard output and error are
  not part of the model.
\<close>

section \<open>Pinning the process\<close>

definition CPU_SETSIZE :: nat where
  "CPU_SETSIZE = 1024"

text \<open>
  \<open>affinity\<close> is the answer of \<open>sched_getaffinity\<close>, \<open>None\<close> on failure, and \<open>set_affinity\<close> tells
  whether \<open>sched_setaffinity\<close> accepts a mask. \<open>CPU_SET(-1, ...)\<close> sets no bit, because the
  macro checks the index.
\<close>

definition first_core :: "nat set \<Rightarrow> int" where
  "first_core cores = (case find (\<lambda>i. i \<in> cores) [0..<CPU_SETSIZE] of None \<Rightarrow> - 1 | Some i \<Rightarrow> int i)"

definition pin_to_first_core :: "nat set option \<Rightarrow> (nat set \<Rightarrow> bool) \<Rightarrow> bool \<times> nat set option" where
  "pin_to_first_core affinity set_affinity =
     (case affinity of
        None \<Rightarrow> (False, None)
      | Some cores \<Rightarrow>
          let core = first_core cores;
              mask = (if 0 \<le> core \<and> nat core < CPU_SETSIZE then {nat core} else {})
          in if \<not> set_affinity mask then (False, None) else (True, Some mask))"

section \<open>Arguments and numbers\<close>

datatype args = Usage | NoFile | ConfigFile string

fun parse_args :: "string \<Rightarrow> string list \<Rightarrow> args" where
  "parse_args configFilename [] = ConfigFile configFilename"
| "parse_args configFilename (arg # rest) =
     (if arg = ''-c'' then (case rest of [] \<Rightarrow> NoFile | f # rest' \<Rightarrow> parse_args f rest')
      else Usage)"

text \<open>
  \<open>std::stoi\<close>, \<open>std::stol\<close> and \<open>std::stoll\<close> in base 10 for a result range; \<open>None\<close> stands for
  the exceptions \<open>invalid_argument\<close> and \<open>out_of_range\<close>, which the callers do not tell apart.
\<close>

definition sto_signed :: "nat \<Rightarrow> string \<Rightarrow> int option" where
  "sto_signed bits s =
     (let t = dropWhile is_space s;
          neg = (t \<noteq> [] \<and> hd t = CHR ''-'');
          u = (if t \<noteq> [] \<and> (hd t = CHR ''-'' \<or> hd t = CHR ''+'') then tl t else t);
          ds = takeWhile is_digit u;
          v = (if neg then - digits_value ds else digits_value ds)
      in if ds = [] then None
         else if v < - (2 ^ (bits - 1)) \<or> 2 ^ (bits - 1) \<le> v then None
         else Some v)"

section \<open>Start-up\<close>

definition mandatory_keys :: "string list" where
  "mandatory_keys = [''host'', ''port'', ''max_connections'', ''tpm_interval_in_ms'', ''tsc_check_interval_in_ms'',
     ''tsc_check_deviation_threshold'']"

text \<open>
  The environment of the process. \<open>strtod_double\<close> is the conversion of the C library that
  \<open>std::stod\<close> calls, \<open>None\<close> where \<open>stod\<close> throws; \<open>buffers\<close> are the uninitialised arrays of the
  \<open>Responder\<close>. The two timer threads run while start-up goes on: \<open>boot_checks\<close> are the
  readings of the checks of the time source that are over when \<open>responder.start()\<close> is entered,
  \<open>boot_updates\<close> the answers to the updates of the device ID after the first one.
\<close>

record 'w main_env =
  affinity :: "nat set option"
  set_affinity :: "nat set \<Rightarrow> bool"
  files :: "string \<Rightarrow> string option"
  strtod_double :: "string \<Rightarrow> double option"
  host_cpu :: cpu
  host_perf :: perf
  boot_readings :: "(int \<times> int) \<times> u64"
  boot_checks :: "((int \<times> int) \<times> u64) list"
  host_tpm :: tpm
  tpm_tsc :: u64
  boot_updates :: "(tpm \<times> u64) list"
  host_net :: net
  buffers :: "bytes \<times> bytes"
  first_world :: 'w

datatype 'w main_result = Returned nat | UndefinedBehaviour | Serving monotonic_timer tpm_watcher "'w server"

definition EXIT_FAILURE :: nat where
  "EXIT_FAILURE = 1"

definition config_value :: "config_data \<Rightarrow> string \<Rightarrow> string" where
  "config_value config key = (case ConfigurationParser_get config key of Inl _ \<Rightarrow> [] | Inr v \<Rightarrow> v)"

text \<open>
  The part after the configuration has been read: the components, in their order. Nothing in it
  reads the validity flag, so that the checks made so far are applied when the loop is entered.
\<close>

definition initialise ::
    "'w main_env \<Rightarrow> config_data \<Rightarrow> int \<Rightarrow> int \<Rightarrow> int \<Rightarrow> double \<Rightarrow> 'w main_result \<times> string list" where
  "initialise env config maxConns tpmIntervalInMS tscCheckIntervalInMs tscCheckDeviationThreshold =
     (case MonotonicTimer_new (host_cpu env) (host_perf env) (fst (boot_readings env)) (snd (boot_readings env))
             tscCheckIntervalInMs tscCheckDeviationThreshold of
        Inl Undefined \<Rightarrow> (UndefinedBehaviour, [])
      | Inl StdException \<Rightarrow> (Returned EXIT_FAILURE, [''STATUS=Could not initialize MonotonicTimer!''])
      | Inr mt \<Rightarrow>
          (case TPMWatcher_start (host_tpm env) mt (tpm_tsc env) (TPMWatcher_new (word_of_int tpmIntervalInMS)) of
             None \<Rightarrow> (UndefinedBehaviour, [])
           | Some (ok, w, _) \<Rightarrow>
               if \<not> ok then (Returned EXIT_FAILURE, [''STATUS=Could not start TPMWatcher!''])
               else
                 (case TPMWatcher_updates mt (boot_updates env) w of
                    None \<Rightarrow> (UndefinedBehaviour, [])
                  | Some w \<Rightarrow>
                 (case setupServer (host_net env)
                         (Responder_new (config_value config ''host'') (config_value config ''port'') maxConns
                            (fst (buffers env)) (snd (buffers env)) (first_world env)) of
                    (up, responder, _) \<Rightarrow>
                      if \<not> up then (Returned EXIT_FAILURE, [''STATUS=Could not setup server!''])
                      else (Serving (MonotonicTimer_checks (boot_checks env) mt) w responder,
                        [''READY=1'' @ [CHR 0x0A] @ ''STATUS=Initialisation successful.''])))))"

definition with_status :: "string list \<Rightarrow> 'r \<times> string list \<Rightarrow> 'r \<times> string list" where
  "with_status st r = (fst r, st @ snd r)"

text \<open>Reading the numbers; each failure has its own status.\<close>

definition configure :: "'w main_env \<Rightarrow> config_data \<Rightarrow> 'w main_result \<times> string list" where
  "configure env config =
     (case find (\<lambda>key. \<not> hasKey config key) mandatory_keys of
        Some key \<Rightarrow> (Returned EXIT_FAILURE, [''STATUS=Missing mandatory configuration field: '' @ key])
      | None \<Rightarrow>
          (case sto_signed 32 (config_value config ''max_connections'') of
             None \<Rightarrow> (Returned EXIT_FAILURE, [''STATUS=Invalid value specified for max_connections!''])
           | Some maxConns \<Rightarrow>
          (case sto_signed 64 (config_value config ''tpm_interval_in_ms'') of
             None \<Rightarrow> (Returned EXIT_FAILURE, [''STATUS=Invalid value specified for tpm_interval_in_ms!''])
           | Some tpmIntervalInMS \<Rightarrow>
          (case sto_signed 64 (config_value config ''tsc_check_interval_in_ms'') of
             None \<Rightarrow> (Returned EXIT_FAILURE, [''STATUS=Invalid value specified for tsc_check_interval_in_ms!''])
           | Some tscCheckIntervalInMs \<Rightarrow>
          (case strtod_double env (config_value config ''tsc_check_deviation_threshold'') of
             None \<Rightarrow> (Returned EXIT_FAILURE, [''STATUS=Invalid value specified for tscCheckDeviationThreshold!''])
           | Some threshold \<Rightarrow>
               with_status [''STATUS=Initialising...'']
                 (initialise env config maxConns tpmIntervalInMS tscCheckIntervalInMs threshold))))))"

text \<open>\<open>argv\<close> without the program name.\<close>

definition nha_main :: "'w main_env \<Rightarrow> string list \<Rightarrow> 'w main_result \<times> string list" where
  "nha_main env argv =
     (case pin_to_first_core (affinity env) (set_affinity env) of (pinned, _) \<Rightarrow>
      if \<not> pinned then (Returned EXIT_FAILURE, [''STATUS=Failed to pin to a single core!''])
      else if argv = [] then (Returned EXIT_FAILURE, [''STATUS=No configuration file provided!''])
      else case parse_args [] argv of
        NoFile \<Rightarrow> (Returned EXIT_FAILURE, [''STATUS=No configuration file provided!''])
      | Usage \<Rightarrow> (Returned EXIT_FAILURE, [])
      | ConfigFile configFilename \<Rightarrow>
          with_status [''STATUS=Parsing configuration...'']
            (case ConfigurationParser_load (files env configFilename) Map.empty of (ok, config) \<Rightarrow>
             if \<not> ok then (Returned EXIT_FAILURE, [''STATUS=Could not parse configuration file!''])
             else configure env config))"

section \<open>Properties\<close>




definition ready_message :: string where
  "ready_message = ''READY=1'' @ [CHR 0x0A] @ ''STATUS=Initialisation successful.''"

lemma status_not_ready: "''STATUS='' @ m \<noteq> ready_message"
  by (simp add: ready_message_def)

definition is_serving :: "'w main_result \<Rightarrow> bool" where
  "is_serving r = (case r of Serving _ _ _ \<Rightarrow> True | _ \<Rightarrow> False)"

lemma initialise_ready: "ready_message \<in> set (snd (initialise env config k t i th)) \<longleftrightarrow> is_serving (fst (initialise env config k t i th))"
  by (simp add: initialise_def ready_message_def is_serving_def split: sum.splits mt_error.splits option.splits prod.splits)

lemma configure_ready: "ready_message \<in> set (snd (configure env config)) \<longleftrightarrow> is_serving (fst (configure env config))"
  by (simp add: configure_def with_status_def initialise_ready split: option.splits)
    (simp add: ready_message_def is_serving_def)

text \<open>
  C27: systemd is told that the daemon is ready exactly if start-up has succeeded and the main
  loop is entered, and every failure makes the process return \<open>EXIT_FAILURE\<close>.
\<close>

theorem nha_main_ready:
  "(ready_message \<in> set (snd (nha_main env argv)) \<longleftrightarrow> is_serving (fst (nha_main env argv))) \<and>
   (case fst (nha_main env argv) of Returned code \<Rightarrow> code = EXIT_FAILURE | _ \<Rightarrow> True)"
proof
  show "ready_message \<in> set (snd (nha_main env argv)) \<longleftrightarrow> is_serving (fst (nha_main env argv))"
    by (simp add: nha_main_def with_status_def configure_ready split: prod.splits args.splits)
      (simp add: ready_message_def is_serving_def)
  have "fst (initialise env config k t i th) = Returned code \<Longrightarrow> code = EXIT_FAILURE" for config k t i th code
    by (auto simp: initialise_def split: sum.splits mt_error.splits option.splits prod.splits if_splits)
  then have "fst (configure env config) = Returned code \<Longrightarrow> code = EXIT_FAILURE" for config code
    by (auto simp: configure_def with_status_def split: option.splits)
  then have "fst (nha_main env argv) = Returned code \<Longrightarrow> code = EXIT_FAILURE" for code
    by (auto simp: nha_main_def with_status_def split: prod.splits args.splits if_splits)
  then show "case fst (nha_main env argv) of Returned code \<Rightarrow> code = EXIT_FAILURE | _ \<Rightarrow> True"
    by (auto split: main_result.splits)
qed






section \<open>A concrete start-up\<close>






end
