(* ===== verification/Nhac_Message.thy ===== *)
theory Nhac_Message
  imports CxxString MessageBuilderRefine
begin

unbundle bit_operations_syntax

text \<open>
  \<open>src/tools/src/nhac.cpp\<close>, first part: the records and messages of the command line client,
  their serialisation into and deserialisation from a buffer, and their printed form. The
  result of an operation is \<open>None\<close> for an access outside the buffer, \<open>Some (Inl e)\<close> for a
  \<open>std::runtime_error\<close>, described by the values its text is made of, and \<open>Some (Inr r)\<close>
  otherwise. The MD5 of the picohash library is the parameter \<open>pico\<close>.
\<close>

section \<open>Data\<close>

record nhac_tlv =
  tlv_tag :: u8
  tlv_value :: bytes

record message =
  tlvs :: "nhac_tlv list"
  receivedMd5 :: "bytes option"
  calculatedMd5 :: "bytes option"
  xoredMd5 :: "bytes option"

datatype nhac_error =
    MessageTooBig u32 nat
  | CannotSerializeTLV nat u32 nhac_error
  | AreaTooSmall nat u8 nat
  | InputTooSmall nat
  | MessageIncomplete u32 nat
  | InvalidMessageSize u32
  | CannotDeserializeTLV nat u32 nhac_error
  | NoTagAndLength nat
  | NoValue nat u8 u8

type_synonym 'a nhac_result = "(nhac_error + 'a) option"

text \<open>Sequencing: undefined behaviour and exceptions end the computation.\<close>

definition and_then :: "'a nhac_result \<Rightarrow> ('a \<Rightarrow> 'b nhac_result) \<Rightarrow> 'b nhac_result" where
  "and_then r k = (case r of None \<Rightarrow> None | Some (Inl e) \<Rightarrow> Some (Inl e) | Some (Inr x) \<Rightarrow> k x)"

definition rethrow :: "(nhac_error \<Rightarrow> nhac_error) \<Rightarrow> 'a nhac_result \<Rightarrow> 'a nhac_result" where
  "rethrow f r = (case r of Some (Inl e) \<Rightarrow> Some (Inl (f e)) | _ \<Rightarrow> r)"

definition checked :: "'a option \<Rightarrow> 'a nhac_result" where
  "checked r = map_option Inr r"

definition TLV_getLength :: "nhac_tlv \<Rightarrow> u8" where
  "TLV_getLength t = of_nat (length (tlv_value t))"

definition Message_add :: "nhac_tlv \<Rightarrow> message \<Rightarrow> message" where
  "Message_add t m = m\<lparr>tlvs := tlvs m @ [t]\<rparr>"

definition Message_clear :: "message \<Rightarrow> message" where
  "Message_clear m = m\<lparr>tlvs := [], receivedMd5 := None, calculatedMd5 := None, xoredMd5 := None\<rparr>"

section \<open>Helpers\<close>

definition xDigits :: string where
  "xDigits = ''0123456789abcdef''"

definition toHex :: "u8 \<Rightarrow> bool \<Rightarrow> string" where
  "toHex x withPrefix =
     (if withPrefix then ''0x'' else '''') @
     [xDigits ! unat (drop_bit 4 x AND 0xf), xDigits ! unat (x AND 0xf)]"

definition nhac_toLE32 :: "u32 \<Rightarrow> bytes" where
  "nhac_toLE32 x = [ucast (x AND 0xFF), ucast (drop_bit 8 x AND 0xFF), ucast (drop_bit 16 x AND 0xFF),
     ucast (drop_bit 24 x AND 0xFF)]"

definition nhac_fromLE32 :: "bytes \<Rightarrow> u32" where
  "nhac_fromLE32 t = ucast (t ! 0) OR push_bit 8 (ucast (t ! 1)) OR push_bit 16 (ucast (t ! 2)) OR
     push_bit 24 (ucast (t ! 3))"

section \<open>Serialisation\<close>

text \<open>Into the buffer at \<open>pos\<close>, with \<open>n\<close> bytes of space announced; the new position is returned.\<close>

definition TLV_serialize :: "nhac_tlv \<Rightarrow> bytes \<Rightarrow> nat \<Rightarrow> nat \<Rightarrow> (bytes \<times> nat) nhac_result" where
  "TLV_serialize t buf pos n =
     (if n < 2 + length (tlv_value t)
      then Some (Inl (AreaTooSmall n (tlv_tag t) (length (tlv_value t))))
      else and_then (checked (wr_bytes buf pos (tlv_tag t # of_nat (length (tlv_value t)) # tlv_value t)))
             (\<lambda>buf. Some (Inr (buf, 2 + length (tlv_value t)))))"

definition getCompleteSizeOfMsgInBytes :: "message \<Rightarrow> u32" where
  "getCompleteSizeOfMsgInBytes m = foldl (\<lambda>sz t. sz + (2 + ucast (TLV_getLength t))) 4 (tlvs m) + 16"

text \<open>
  The difference \<open>n - pos\<close> is of type \<open>size_t\<close>: \<open>pos\<close> starts at 4 and each record is checked
  against the space left, so it does not wrap around for the callers, which pass a buffer of
  65536 bytes.
\<close>

fun serialize_tlvs :: "u32 \<Rightarrow> nhac_tlv list \<Rightarrow> bytes \<Rightarrow> nat \<Rightarrow> nat \<Rightarrow> (bytes \<times> nat) nhac_result" where
  "serialize_tlvs completeSize [] buf pos n = Some (Inr (buf, pos))"
| "serialize_tlvs completeSize (t # ts) buf pos n =
     and_then (rethrow (CannotSerializeTLV pos completeSize) (TLV_serialize t buf pos (n - pos)))
       (\<lambda>(buf, k). serialize_tlvs completeSize ts buf (pos + k) n)"

definition Message_serialize ::
    "(bytes \<Rightarrow> bytes) \<Rightarrow> message \<Rightarrow> bytes \<Rightarrow> nat \<Rightarrow> (message \<times> bytes \<times> nat) nhac_result" where
  "Message_serialize pico m buf n =
     (let completeSize = getCompleteSizeOfMsgInBytes m in
      if unat completeSize > n then Some (Inl (MessageTooBig completeSize n))
      else and_then (checked (wr_bytes buf 0 (nhac_toLE32 completeSize))) (\<lambda>buf.
           and_then (serialize_tlvs completeSize (tlvs m) buf 4 n) (\<lambda>(buf, pos).
           and_then (checked (rd_bytes buf 0 pos)) (\<lambda>dat.
           and_then (checked (wr_bytes buf pos (pico dat))) (\<lambda>buf.
           and_then (checked (rd_bytes buf pos 16)) (\<lambda>md5.
             Some (Inr (m\<lparr>calculatedMd5 := Some md5, receivedMd5 := None, xoredMd5 := None\<rparr>, buf, pos + 16))))))))"

section \<open>Deserialisation\<close>

definition TLV_deserialize :: "bytes \<Rightarrow> nat \<Rightarrow> nat \<Rightarrow> (nhac_tlv \<times> nat) nhac_result" where
  "TLV_deserialize buf pos n =
     (if n < 2 then Some (Inl (NoTagAndLength n))
      else and_then (checked (rd buf pos)) (\<lambda>tag.
           and_then (checked (rd buf (pos + 1))) (\<lambda>len.
           if n < 2 + unat len then Some (Inl (NoValue n tag len))
           else and_then (checked (rd_bytes buf (pos + 2) (unat len))) (\<lambda>value.
             Some (Inr (\<lparr>tlv_tag = tag, tlv_value = value\<rparr>, 2 + unat len))))))"

text \<open>A record takes at least two bytes, so the loop ends.\<close>

lemma TLV_deserialize_size: "TLV_deserialize buf pos n = Some (Inr (t, k)) \<Longrightarrow> 2 \<le> k \<and> k \<le> n"
  by (auto simp: TLV_deserialize_def and_then_def checked_def split: if_splits option.splits sum.splits)

function deserialize_tlvs :: "u32 \<Rightarrow> bytes \<Rightarrow> nat \<Rightarrow> nat \<Rightarrow> (nhac_tlv list \<times> nat) nhac_result" where
  "deserialize_tlvs completeSize buf pos endPos =
     (if pos < endPos
      then (case rethrow (CannotDeserializeTLV pos completeSize) (TLV_deserialize buf pos (endPos - pos)) of
              None \<Rightarrow> None
            | Some (Inl e) \<Rightarrow> Some (Inl e)
            | Some (Inr (t, k)) \<Rightarrow>
                and_then (deserialize_tlvs completeSize buf (pos + k) endPos) (\<lambda>(ts, pos). Some (Inr (t # ts, pos))))
      else Some (Inr ([], pos)))"
  by pat_completeness auto

lemma rethrow_Inr [simp]: "rethrow f r = Some (Inr x) \<longleftrightarrow> r = Some (Inr x)"
  by (auto simp: rethrow_def split: option.splits sum.splits)

termination deserialize_tlvs
  by (relation "measure (\<lambda>(_, _, pos, endPos). endPos - pos)") (auto dest!: TLV_deserialize_size)

declare deserialize_tlvs.simps [simp del]

definition Message_deserialize ::
    "(bytes \<Rightarrow> bytes) \<Rightarrow> message \<Rightarrow> bytes \<Rightarrow> nat \<Rightarrow> (message \<times> nat) nhac_result" where
  "Message_deserialize pico m buf n =
     (if n < 4 + 16 then Some (Inl (InputTooSmall n))
      else and_then (checked (rd_bytes buf 0 4)) (\<lambda>szField.
        let completeSize = nhac_fromLE32 szField in
        if unat completeSize > n then Some (Inl (MessageIncomplete completeSize n))
        else if completeSize < 4 + 16 then Some (Inl (InvalidMessageSize completeSize))
        else
          let endPos = unat (completeSize - 16) in
          and_then (deserialize_tlvs completeSize buf 4 endPos) (\<lambda>(newTlvs, pos).
          and_then (checked (rd_bytes buf pos 16)) (\<lambda>received.
          and_then (checked (rd_bytes buf 0 pos)) (\<lambda>dat.
            let calculated = pico dat;
                xored = map (\<lambda>i. received ! i XOR calculated ! i) [0..<16]
            in Some (Inr (m\<lparr>receivedMd5 := Some received, calculatedMd5 := Some calculated,
                            xoredMd5 := Some xored, tlvs := newTlvs\<rparr>, pos + 16)))))))"

section \<open>Printing\<close>

definition hex_bytes :: "bytes \<Rightarrow> string" where
  "hex_bytes v = concat (map (\<lambda>c. toHex c False) v)"

definition le64_value :: "bytes \<Rightarrow> u64" where
  "le64_value v = push_bit 32 (ucast (nhac_fromLE32 (drop 4 v))) OR ucast (nhac_fromLE32 (drop 0 v))"

definition TLV_decode :: "nhac_tlv \<Rightarrow> string" where
  "TLV_decode t =
     (let tag = tlv_tag t; value = tlv_value t; base = tag AND 0x7f;
          is_query = (tag AND 0x80 = 0x80); is_reply = (tag AND 0x80 = 0x00)
      in
      if tag = 0x00 \<and> length value = 4 \<and> value ! 0 = 0x4E \<and> value ! 1 = 0x48 \<and> value ! 2 = 0x41 \<and> value ! 3 = 0x31
      then ''magic''
      else if tag = 0x01 \<and> length value = 4
      then ''version '' @ decimal (unat (value ! 3)) @ ''.'' @ decimal (unat (value ! 2)) @ ''.'' @
           decimal (unat (push_bit 8 (ucast (value ! 1)) OR ucast (value ! 0) :: u32))
      else if tag = 0x02 \<and> length value = 1
      then ''type '' @ (if value ! 0 = 0x01 then ''Standard'' else ''SPECIAL'')
      else if tag = 0x03 \<and> length value = 1
      then ''flags '' @
           (if value ! 0 = 0x00 then ''None''
            else if value ! 0 = 0x01 then ''HAS_CHECKSUM_XOR_DEVICE_ID''
            else if value ! 0 = 0x02 then ''REPLY_CHECKSUM_XOR_DEVICE_ID''
            else ''??'')
      else if tag = 0x04 \<or> tag = 0x05
      then ''user_data'' @ (if tag = 0x05 then ''_mirrored'' else '''') @
           (if value \<noteq> [] then '' '' else '''') @ hex_bytes value
      else if base = 0x10 \<or> base = 0x20
      then (let name = (if base = 0x10 then ''capabilities'' else ''temperatures'') in
            if is_query \<and> length value = 0 then name @ '' query''
            else if is_reply then name @ (if value \<noteq> [] then '' '' else '''') @ hex_bytes value
            else '''')
      else if base = 0x11
      then (if is_query \<and> length value = 0 then ''device_id query''
            else if is_reply \<and> length value = 16 then ''device_id '' @ hex_bytes value
            else '''')
      else if base = 0x12 \<or> base = 0x13
      then (let name = ''monotonic_timer_'' @ (if base = 0x12 then ''rx'' else ''tx'') in
            if is_query \<and> length value = 0 then name @ '' query''
            else if is_reply \<and> length value = 8 then name @ '' '' @ decimal (unat (le64_value value))
            else '''')
      else if base = 0x14
      then (if is_query \<and> length value = 0 then ''device_id_last_updated query''
            else if is_reply \<and> length value = 8 then ''device_id_last_updated '' @ decimal (unat (le64_value value))
            else '''')
      else '''')"

text \<open>\<open>std::endl\<close>, and \<open>std::setw(3) << std::left\<close> with the fill character of the stream.\<close>

definition endl :: string where
  "endl = [CHR 0x0A]"

definition left3 :: "string \<Rightarrow> string" where
  "left3 s = s @ replicate (3 - length s) CHR '' ''"

fun spaced_bytes :: "bool \<Rightarrow> bytes \<Rightarrow> string" where
  "spaced_bytes first [] = ''''"
| "spaced_bytes first (c # cs) = (if \<not> first then '' '' else '''') @ toHex c True @ spaced_bytes False cs"

definition print_tlv :: "nhac_tlv \<Rightarrow> string" where
  "print_tlv t =
     (let decodedTlv = TLV_decode t in
      ''  T='' @ toHex (tlv_tag t) True @ '' L='' @ left3 (decimal (unat (TLV_getLength t))) @ '' V='' @
      spaced_bytes True (tlv_value t) @ endl @
      (if decodedTlv \<noteq> [] then ''    ('' @ decodedTlv @ '')'' @ endl else ''''))"

definition print_md5 :: "string \<Rightarrow> bytes option \<Rightarrow> string" where
  "print_md5 title md = (case md of None \<Rightarrow> '''' | Some v \<Rightarrow> title @ hex_bytes v @ endl)"

definition Message_print :: "message \<Rightarrow> string \<Rightarrow> string" where
  "Message_print m title =
     ''Message='' @ title @ '' completeSizeOfMsgInBytes='' @ decimal (unat (getCompleteSizeOfMsgInBytes m)) @ endl @
     concat (map print_tlv (tlvs m)) @
     print_md5 ''received   MD5='' (receivedMd5 m) @
     print_md5 ''calculated MD5='' (calculatedMd5 m) @
     print_md5 ''xored      MD5='' (xoredMd5 m) @ endl"

end
