(* ===== verification/Nhac_Parser.thy ===== *)
theory Nhac_Parser
  imports Nhac_Message
begin

text \<open>
  \<open>src/tools/src/nhac.cpp\<close>, second part: the parser of query descriptions. A stream is the
  list of characters that are still to be read, and every operation returns the rest. An
  exception is a value of \<open>parse_error\<close>; \<open>std::stoull\<close> throws the last two. Bytes above 127 are
  in none of the character classes, as in the classic locale.
\<close>

datatype expected = OpenBrace | TagOrClose | ValueOrClose

datatype parse_error =
    UnexpectedToken string expected
  | UnexpectedEnd expected
  | MissingQuotes string
  | StoullInvalid
  | StoullOutOfRange

section \<open>Tokens\<close>

function skip_blanks :: "string \<Rightarrow> string" where
  "skip_blanks is =
     (let it = dropWhile (\<lambda>c. is_space c \<or> c = CHR '','') is in
      if it = [] then []
      else if hd it = CHR ''#''
      then (let it' = dropWhile (\<lambda>c. c \<noteq> CHR 0x0A) it in if it' = [] then [] else skip_blanks it')
      else it)"
  by pat_completeness auto

lemma dropWhile_hd_less: "xs \<noteq> [] \<Longrightarrow> P (hd xs) \<Longrightarrow> length (dropWhile P xs) < length xs"
  by (cases xs) (auto simp: le_imp_less_Suc length_dropWhile_le)

termination skip_blanks
proof (relation "measure length")
  fix "is" it it' :: string
  assume it: "it = dropWhile (\<lambda>c. is_space c \<or> c = CHR '','') is" and "it \<noteq> []" "hd it = CHR ''#''"
    and it': "it' = dropWhile (\<lambda>c. c \<noteq> CHR 0x0A) it"
  then have "length it' < length it" by (simp add: dropWhile_hd_less)
  also have "length it \<le> length is" unfolding it by (rule length_dropWhile_le)
  finally show "(it', is) \<in> measure length" by simp
qed simp

declare skip_blanks.simps [simp del]

definition nextToken :: "string \<Rightarrow> string \<times> string" where
  "nextToken is =
     (case skip_blanks is of
        [] \<Rightarrow> ('''', [])
      | c # it \<Rightarrow>
          if c = CHR 0x22
          then (let inside = (\<lambda>c. c \<noteq> CHR 0x22 \<and> c \<noteq> CHR 0x0A); token = c # takeWhile inside it; it = dropWhile inside it in
                if it \<noteq> [] \<and> hd it = CHR 0x22 then (token @ [hd it], tl it) else (token, it))
          else if is_alnum c then (c # takeWhile is_alnum it, dropWhile is_alnum it)
          else ([c], it))"

text \<open>A token is read from at least one character, so every loop of the parser ends.\<close>

lemma length_skip_blanks: "length (skip_blanks is) \<le> length is"
proof (induction "is" rule: skip_blanks.induct)
  case (1 "is")
  let ?it = "dropWhile (\<lambda>c. is_space c \<or> c = CHR '','') is"
  let ?it' = "dropWhile (\<lambda>c. c \<noteq> CHR 0x0A) ?it"
  have le: "length ?it \<le> length is" "length ?it' \<le> length ?it" by (rule length_dropWhile_le)+
  show ?case
  proof (cases "?it \<noteq> [] \<and> hd ?it = CHR ''#'' \<and> ?it' \<noteq> []")
    case True
    then have "length (skip_blanks ?it') \<le> length ?it'" by (intro 1 [OF refl _ _ refl]) (elim conjE, assumption)+
    moreover have "skip_blanks is = skip_blanks ?it'" 
      using True by (simp only: skip_blanks.simps [of "is"] Let_def simp_thms if_True if_False)
    ultimately show ?thesis using le by (metis order_trans)
  next
    case False
    then show ?thesis using le by (subst skip_blanks.simps) (auto simp: Let_def)
  qed
qed

lemma nextToken_rest:
  assumes "nextToken is = (token, is')"
  shows "if token = [] then is' = [] else length is' < length is"
proof (cases "skip_blanks is")
  case Nil
  then show ?thesis using assms by (simp add: nextToken_def)
next
  case (Cons c it)
  then have "length it < length is" using length_skip_blanks [of "is"] by simp
  then have drop: "length (dropWhile P it) < length is" for P using length_dropWhile_le [of P it] by linarith
  then have tail: "length (dropWhile P it) - Suc 0 < length is" for P by (meson diff_le_self le_less_trans)
  from \<open>length it < length is\<close> show ?thesis using assms Cons drop
    by (auto simp: nextToken_def Let_def split: if_splits intro!: tail)
qed

definition pending :: "string \<Rightarrow> string \<Rightarrow> nat" where
  "pending token is = length is + (if token = [] then 0 else 1)"

lemma nextToken_pending: "nextToken is = (token', is') \<Longrightarrow> token \<noteq> [] \<Longrightarrow> pending token' is' < pending token is"
  using nextToken_rest [of "is" token' is'] by (auto simp: pending_def split: if_splits)

section \<open>Values\<close>

text \<open>\<open>0x\<close> and two hexadecimal digits, which \<open>std::stoi\<close> converts with base 16.\<close>

definition is_hex_byte :: "string \<Rightarrow> bool" where
  "is_hex_byte token \<longleftrightarrow> length token = 4 \<and> token ! 0 = CHR ''0'' \<and> to_upper (token ! 1) = CHR ''X'' \<and>
     is_xdigit (token ! 2) \<and> is_xdigit (token ! 3)"

definition hex_byte_value :: "string \<Rightarrow> u8" where
  "hex_byte_value token = of_nat (16 * xdigit_value (token ! 2) + xdigit_value (token ! 3))"

text \<open>\<open>std::stoull\<close> reads the leading digits; a sign or blanks cannot occur in a token of digits.\<close>

definition stoull :: "string \<Rightarrow> parse_error + u64" where
  "stoull token =
     (let ds = takeWhile is_digit token in
      if ds = [] then Inl StoullInvalid
      else if digits_value ds \<ge> 2 ^ 64 then Inl StoullOutOfRange
      else Inr (of_int (digits_value ds)))"

fun shift_out :: "nat \<Rightarrow> u64 \<Rightarrow> bytes" where
  "shift_out 0 num = []"
| "shift_out (Suc n) num = ucast (num AND 0xFF) # shift_out n (drop_bit 8 num)"

definition parse_value :: "string \<Rightarrow> parse_error + bytes" where
  "parse_value token =
     (if is_hex_byte token then Inr [hex_byte_value token]
      else if length token \<ge> 1 \<and> token ! 0 = CHR 0x22
      then (if length token < 2 \<or> last token \<noteq> CHR 0x22 then Inl (MissingQuotes token)
            else Inr (map of_char (take (length token - 2) (drop 1 token))))
      else if (is_digit (last token) \<or> to_upper (last token) = CHR ''L'') \<and> list_all is_digit (butlast token)
      then (let nBytes = (if is_digit (last token) then 4 else 8) in
            case stoull token of Inl e \<Rightarrow> Inl e | Inr num \<Rightarrow> Inr (shift_out nBytes num))
      else Inl (UnexpectedToken token ValueOrClose))"

function parse_values :: "bytes \<Rightarrow> string \<Rightarrow> string \<Rightarrow> parse_error + bytes \<times> string \<times> string" where
  "parse_values args token is =
     (if token \<noteq> [] \<and> token \<noteq> '')''
      then (case parse_value token of
              Inl e \<Rightarrow> Inl e
            | Inr bs \<Rightarrow> (case nextToken is of (token, is) \<Rightarrow> parse_values (args @ bs) token is))
      else Inr (args, token, is))"
  by pat_completeness auto

termination parse_values
  by (relation "measure (\<lambda>(_, token, is). pending token is)") (auto simp: nextToken_pending split: prod.split)

declare parse_values.simps [simp del]

section \<open>Messages\<close>

text \<open>The optional parenthesised value after a tag; the token that follows is returned.\<close>

definition parse_tag_args :: "string \<Rightarrow> parse_error + bytes \<times> string \<times> string" where
  "parse_tag_args is =
     (case nextToken is of (token, is) \<Rightarrow>
      if token = ''('' then
        (case nextToken is of (token, is) \<Rightarrow>
         case parse_values [] token is of
           Inl e \<Rightarrow> Inl e
         | Inr (args, token, is) \<Rightarrow>
             if token = [] then Inl (UnexpectedEnd ValueOrClose)
             else (case nextToken is of (token, is) \<Rightarrow> Inr (args, token, is)))
      else Inr ([], token, is))"

definition tagAliases :: "string \<Rightarrow> u8 option" where
  "tagAliases = map_of [
     (''m'', 0x00), (''magic'', 0x00),
     (''v'', 0x01), (''version'', 0x01),
     (''t'', 0x02), (''message_type'', 0x02),
     (''f'', 0x03), (''message_flags'', 0x03),
     (''u'', 0x04), (''user_data'', 0x04),
     (''c'', 0x90), (''capabilities'', 0x90),
     (''d'', 0x91), (''device_id'', 0x91),
     (''rx'', 0x92), (''monotonic_timer_rx'', 0x92),
     (''tx'', 0x93), (''monotonic_timer_tx'', 0x93),
     (''l'', 0x94), (''deviceid_last_updated'', 0x94),
     (''e'', 0xa0), (''temperatures'', 0xa0)]"

definition add_tagged :: "string \<Rightarrow> bytes \<Rightarrow> message \<Rightarrow> parse_error + message" where
  "add_tagged tagId args msg =
     (if tagId = ''H'' \<or> tagId = ''Header'' then
        (let args = (if args = [] then [0x00] else args) in
         Inr (Message_add \<lparr>tlv_tag = 0x03, tlv_value = args\<rparr>
             (Message_add \<lparr>tlv_tag = 0x02, tlv_value = [0x01]\<rparr>
             (Message_add \<lparr>tlv_tag = 0x01, tlv_value = [0x00, 0x00, 0x00, 0x01]\<rparr>
             (Message_add \<lparr>tlv_tag = 0x00, tlv_value = [0x4e, 0x48, 0x41, 0x31]\<rparr> msg)))))
      else if is_hex_byte tagId then Inr (Message_add \<lparr>tlv_tag = hex_byte_value tagId, tlv_value = args\<rparr> msg)
      else (case tagAliases tagId of
              Some tag \<Rightarrow> Inr (Message_add \<lparr>tlv_tag = tag, tlv_value = args\<rparr> msg)
            | None \<Rightarrow> Inl (UnexpectedToken tagId TagOrClose)))"

lemma parse_values_pending:
  "parse_values args token is = Inr (args', token', is') \<Longrightarrow> pending token' is' \<le> pending token is"
proof (induction args token "is" rule: parse_values.induct)
  case (1 args token "is")
  show ?case
  proof (cases "token \<noteq> [] \<and> token \<noteq> '')''")
    case False
    then show ?thesis using 1(2) by (auto simp: parse_values.simps)
  next
    case True
    obtain t2 s2 where n: "nextToken is = (t2, s2)" by fastforce
    with True 1(2) obtain bs where v: "parse_value token = Inr bs" "parse_values (args @ bs) t2 s2 = Inr (args', token', is')"
      by (subst (asm) parse_values.simps) (auto split: sum.splits)
    from 1(1) [OF True v(1) n [symmetric] v(2)] nextToken_pending [OF n] True show ?thesis by fastforce
  qed
qed

lemma parse_tag_args_pending:
  assumes "parse_tag_args is = Inr (args, token', is')" and "token \<noteq> []"
  shows "pending token' is' < pending token is"
proof -
  obtain t1 s1 where n1: "nextToken is = (t1, s1)" by fastforce
  obtain t2 s2 where n2: "nextToken s1 = (t2, s2)" by fastforce
  note p1 = nextToken_pending [OF n1 assms(2)]
  show ?thesis
  proof (cases "t1 = ''(''")
    case False
    then show ?thesis using assms p1 n1 by (auto simp: parse_tag_args_def)
  next
    case True
    then obtain t3 s3 where v: "parse_values [] t2 s2 = Inr (args, t3, s3)" "t3 \<noteq> []" "nextToken s3 = (token', is')"
      using assms n1 n2 by (auto simp: parse_tag_args_def split: sum.splits if_splits prod.splits)
    from nextToken_pending [OF v(3,2)] parse_values_pending [OF v(1)] nextToken_pending [OF n2, of t1] p1 True
    show ?thesis by simp
  qed
qed

function parse_items :: "message \<Rightarrow> string \<Rightarrow> string \<Rightarrow> parse_error + message \<times> string" where
  "parse_items msg token is =
     (if token = ''}'' then Inr (msg, is)
      else if token = [] then Inl (UnexpectedEnd TagOrClose)
      else if token = ''{'' \<or> token = ''('' \<or> token = '')'' then Inl (UnexpectedToken token TagOrClose)
      else (case parse_tag_args is of
              Inl e \<Rightarrow> Inl e
            | Inr (args, token', is') \<Rightarrow>
                (case add_tagged token args msg of Inl e \<Rightarrow> Inl e | Inr msg \<Rightarrow> parse_items msg token' is')))"
  by pat_completeness auto

termination parse_items
  by (relation "measure (\<lambda>(_, token, is). pending token is)") (auto simp: parse_tag_args_pending)

declare parse_items.simps [simp del]

definition parse :: "message \<Rightarrow> string \<Rightarrow> parse_error + bool \<times> message \<times> string" where
  "parse msg is =
     (let msg = Message_clear msg in
      case nextToken is of (token, is) \<Rightarrow>
      if token = [] then Inr (False, msg, is)
      else if token \<noteq> ''{'' then Inl (UnexpectedToken token OpenBrace)
      else (case nextToken is of (token, is) \<Rightarrow>
            case parse_items msg token is of Inl e \<Rightarrow> Inl e | Inr (msg, is) \<Rightarrow> Inr (True, msg, is)))"

section \<open>Progress\<close>

lemma parse_items_pending: "parse_items msg token is = Inr (msg', is') \<Longrightarrow> length is' < pending token is"
proof (induction msg token "is" rule: parse_items.induct)
  case (1 msg token "is")
  show ?case
  proof (cases "token = ''}''")
    case True
    then show ?thesis using 1(2) by (simp add: parse_items.simps pending_def)
  next
    case False
    then have t: "token \<noteq> []" "\<not> (token = ''{'' \<or> token = ''('' \<or> token = '')'')"
      using 1(2) by (auto simp: parse_items.simps [of msg token] split: if_splits)
    obtain args t2 s2 m2 where a: "parse_tag_args is = Inr (args, t2, s2)" "add_tagged token args msg = Inr m2"
        "parse_items m2 t2 s2 = Inr (msg', is')"
      using 1(2) False t by (auto simp: parse_items.simps [of msg token] split: sum.splits)
    have "length is' < pending t2 s2" by (rule 1(1) [OF False t a(1) refl refl a(2,3)])
    then show ?thesis using parse_tag_args_pending [OF a(1) t(1)] by simp
  qed
qed

lemma parse_consumes:
  assumes "parse msg is = Inr (again, msg', is')"
  shows "if again then length is' < length is else is' = [] \<and> tlvs msg' = []"
proof -
  obtain t1 s1 where n1: "nextToken is = (t1, s1)" by fastforce
  obtain t2 s2 where n2: "nextToken s1 = (t2, s2)" by fastforce
  show ?thesis
  proof (cases "t1 = []")
    case True
    then show ?thesis using assms n1 nextToken_rest [OF n1] by (auto simp: parse_def Message_clear_def)
  next
    case False
    then have "parse_items (Message_clear msg) t2 s2 = Inr (msg', is')" and again
      using assms n1 n2 by (auto simp: parse_def split: if_splits sum.splits)
    then have "length is' < pending t2 s2" by (intro parse_items_pending)
    moreover have "pending t2 s2 < pending t1 s1" using nextToken_pending [OF n2 False] .
    moreover have "pending t1 s1 \<le> length is" using nextToken_rest [OF n1] False by (simp add: pending_def)
    ultimately show ?thesis using \<open>again\<close> by simp
  qed
qed

end
