(* ===== verification/Nhac_Client.thy ===== *)
theory Nhac_Client
  imports Nhac_Parser
begin

text \<open>
  \<open>src/tools/src/nhac.cpp\<close>, third part: the connection of the client, the exchange of messages
  and \<open>main\<close>. The operating system is a record of functions on an unknown world \<open>'w\<close>; an address
  list is the list of the socket addresses in it. A \<open>client\<close> holds the world, the
  text written to the standard output, and a history variable with the input and output of
  the process. The result of an operation is \<open>None\<close> if it accesses memory outside a buffer or
  does not end. The texts of the help and of error messages are not modelled.
\<close>

section \<open>The operating system and the state\<close>

text \<open>
  Where a return value of -1 stands for an error, it is \<open>None\<close>. \<open>cl_freed\<close> is what reading a
  socket address out of memory that has been freed gives: C++ promises nothing, so it may be
  any bytes, or \<open>None\<close> if the access ends the process.
\<close>

record 'w client_os =
  cl_getaddrinfo :: "'w \<Rightarrow> string \<Rightarrow> string \<Rightarrow> int \<times> bytes list \<times> 'w"
  cl_freed :: "'w \<Rightarrow> bytes \<Rightarrow> bytes option"
  cl_socket :: "'w \<Rightarrow> int \<times> 'w"
  cl_connect :: "'w \<Rightarrow> int \<Rightarrow> bytes \<Rightarrow> int \<times> 'w"
  cl_send :: "'w \<Rightarrow> int \<Rightarrow> bytes \<Rightarrow> nat option \<times> 'w"
  cl_recv :: "'w \<Rightarrow> int \<Rightarrow> nat \<Rightarrow> bytes option \<times> 'w"
  cl_close :: "'w \<Rightarrow> int \<Rightarrow> 'w"

datatype client_event =
    AddrObtained | AddrFreed | AddrUsed | SockOpened int | SockClosed int
  | Wrote int bytes | Read int bytes

record 'w client =
  cl_world :: 'w
  cl_trace :: "client_event list"
  cl_out :: string

datatype client_error =
    GetaddrinfoFailed int | SocketFailed | ConnectFailed | SendFailed | RecvFailed
  | SizeNotReceived | ConnectionClosed | BadMessage nhac_error | BadDescription parse_error

type_synonym ('w, 'a) client_result = "((client_error + 'a) \<times> 'w client) option"

definition log_event :: "client_event \<Rightarrow> 'w client \<Rightarrow> 'w client" where
  "log_event e c = c\<lparr>cl_trace := cl_trace c @ [e]\<rparr>"

definition write_out :: "string \<Rightarrow> 'w client \<Rightarrow> 'w client" where
  "write_out text c = c\<lparr>cl_out := cl_out c @ text\<rparr>"

section \<open>Connecting\<close>

text \<open>
  \<open>serverAddr\<close> is a copy of the first entry of the list; its member \<open>ai_addr\<close> still points
  into the list, which is freed before \<open>connect\<close> uses it: undefined behaviour on every run that
  gets so far, of which \<open>cl_freed\<close> decides the outcome. \<open>None\<close> is also the access through the
  null pointer of an empty list.
\<close>

definition connectToNha :: "'w client_os \<Rightarrow> string \<Rightarrow> string \<Rightarrow> 'w client \<Rightarrow> ('w, int) client_result" where
  "connectToNha os ip port c =
     (case cl_getaddrinfo os (cl_world c) ip port of (addrinfoResult, addrinfoList, w) \<Rightarrow>
      let c = c\<lparr>cl_world := w\<rparr> in
      if addrinfoResult \<noteq> 0 then Some (Inl (GetaddrinfoFailed addrinfoResult), c)
      else if addrinfoList = [] then None
      else
        let ai_addr = hd addrinfoList; c = log_event AddrFreed (log_event AddrObtained c) in
        case cl_socket os (cl_world c) of (sockfd, w) \<Rightarrow>
        let c = c\<lparr>cl_world := w\<rparr> in
        if - 1 = sockfd then Some (Inl SocketFailed, c)
        else
          let c = log_event AddrUsed (log_event (SockOpened sockfd) c) in
          case cl_freed os (cl_world c) ai_addr of
            None \<Rightarrow> None
          | Some addr \<Rightarrow>
              (case cl_connect os (cl_world c) sockfd addr of (r, w) \<Rightarrow>
               let c = c\<lparr>cl_world := w\<rparr> in
               if - 1 = r then Some (Inl ConnectFailed, c) else Some (Inr sockfd, c)))"

definition disconnectFromNha :: "'w client_os \<Rightarrow> int \<Rightarrow> 'w client \<Rightarrow> int \<times> 'w client" where
  "disconnectFromNha os sockfd c =
     (- 1, if sockfd \<ge> 0 then log_event (SockClosed sockfd) (c\<lparr>cl_world := cl_close os (cl_world c) sockfd\<rparr>) else c)"

section \<open>Exchanging messages\<close>

text \<open>The loop does not end if \<open>send\<close> keeps reporting zero bytes.\<close>

partial_function (option) sendQuery :: "'w client_os \<Rightarrow> int \<Rightarrow> bytes \<Rightarrow> 'w client \<Rightarrow> ('w, unit) client_result" where
  "sendQuery os sockfd t c =
     (case cl_send os (cl_world c) sockfd t of (res, w) \<Rightarrow>
      let c = c\<lparr>cl_world := w\<rparr> in
      case res of
        None \<Rightarrow> Some (Inl SendFailed, c)
      | Some k \<Rightarrow>
          let c = log_event (Wrote sockfd (take k t)) c in
          if k \<noteq> length t then sendQuery os sockfd (drop k t) c else Some (Inr (), c))"

text \<open>One \<open>recv\<close> of at most \<open>n\<close> bytes into the buffer at \<open>pos\<close>.\<close>

definition recv_into ::
    "'w client_os \<Rightarrow> int \<Rightarrow> nat \<Rightarrow> u64 \<Rightarrow> bytes \<Rightarrow> 'w client \<Rightarrow> (bytes option \<times> bytes \<times> 'w client) option" where
  "recv_into os sockfd pos n buf c =
     (case cl_recv os (cl_world c) sockfd (unat n) of (res, w) \<Rightarrow>
      let c = c\<lparr>cl_world := w\<rparr> in
      case res of
        None \<Rightarrow> Some (None, buf, c)
      | Some b \<Rightarrow> map_option (\<lambda>buf. (Some b, buf, log_event (Read sockfd b) c)) (wr_bytes buf pos b))"

partial_function (option) recv_rest ::
    "'w client_os \<Rightarrow> int \<Rightarrow> nat \<Rightarrow> u64 \<Rightarrow> bytes \<Rightarrow> 'w client \<Rightarrow> ('w, bytes) client_result" where
  "recv_rest os sockfd pos n buf c =
     Option.bind (recv_into os sockfd pos n buf c) (\<lambda>(res, buf, c).
       case res of
         None \<Rightarrow> Some (Inl RecvFailed, c)
       | Some b \<Rightarrow>
           if b = [] then Some (Inl ConnectionClosed, c)
           else if of_nat (length b) = n then Some (Inr buf, c)
           else recv_rest os sockfd (pos + length b) (n - of_nat (length b)) buf c)"

text \<open>\<open>std::min(n, completeSizeOfMsgInBytes) - 4\<close> is computed modulo \<open>2 ^ 64\<close>.\<close>

definition receiveResponse ::
    "'w client_os \<Rightarrow> int \<Rightarrow> bytes \<Rightarrow> u64 \<Rightarrow> 'w client \<Rightarrow> ('w, bytes \<times> u64) client_result" where
  "receiveResponse os sockfd buf n c =
     Option.bind (recv_into os sockfd 0 4 buf c) (\<lambda>(res, buf, c).
       case res of
         None \<Rightarrow> Some (Inl RecvFailed, c)
       | Some b \<Rightarrow>
           if length b \<noteq> 4 then Some (Inl SizeNotReceived, c)
           else
             let completeSizeOfMsgInBytes = ucast (nhac_fromLE32 (take 4 buf)) in
             Option.bind (recv_rest os sockfd 4 (min n completeSizeOfMsgInBytes - 4) buf c) (\<lambda>(res, c).
               case res of
                 Inl e \<Rightarrow> Some (Inl e, c)
               | Inr buf \<Rightarrow> Some (Inr (buf, completeSizeOfMsgInBytes), c)))"

section \<open>The main program\<close>

text \<open>\<open>std::setw(3) << std::setfill('0')\<close>.\<close>

definition counterStr :: "nat \<Rightarrow> string" where
  "counterStr counter = replicate (3 - length (decimal counter)) CHR ''0'' @ decimal counter"

definition bufferSize :: nat where
  "bufferSize = 65536"

text \<open>The body of the loop over the queries, for a message that was parsed.\<close>

definition exchange ::
    "'w client_os \<Rightarrow> (bytes \<Rightarrow> bytes) \<Rightarrow> bool \<Rightarrow> int \<Rightarrow> nat \<Rightarrow> message \<Rightarrow> bytes \<Rightarrow> 'w client \<Rightarrow>
     ('w, message \<times> bytes) client_result" where
  "exchange os pico quiet sockfd counter msg buffer c =
     (case Message_serialize pico msg buffer bufferSize of
        None \<Rightarrow> None
      | Some (Inl e) \<Rightarrow> Some (Inl (BadMessage e), c)
      | Some (Inr (msg, buffer, sendSize)) \<Rightarrow>
          let c = (if \<not> quiet then write_out (Message_print msg (''query_'' @ counterStr counter)) c else c) in
          (case sendQuery os sockfd (take sendSize buffer) c of
             None \<Rightarrow> None
           | Some (Inl e, c) \<Rightarrow> Some (Inl e, c)
           | Some (Inr _, c) \<Rightarrow>
               (case receiveResponse os sockfd buffer (of_nat bufferSize) c of
                  None \<Rightarrow> None
                | Some (Inl e, c) \<Rightarrow> Some (Inl e, c)
                | Some (Inr (buffer, recvSize), c) \<Rightarrow>
                    (case Message_deserialize pico msg buffer (unat recvSize) of
                       None \<Rightarrow> None
                     | Some (Inl e) \<Rightarrow> Some (Inl (BadMessage e), c)
                     | Some (Inr (msg, _)) \<Rightarrow>
                         Some (Inr (msg, buffer), write_out (Message_print msg (''response_'' @ counterStr counter)) c)))))"

function query_loop ::
    "'w client_os \<Rightarrow> (bytes \<Rightarrow> bytes) \<Rightarrow> bool \<Rightarrow> int \<Rightarrow> nat \<Rightarrow> message \<Rightarrow> bytes \<Rightarrow> string \<Rightarrow> 'w client \<Rightarrow>
     ('w, unit) client_result" where
  "query_loop os pico quiet sockfd counter msg buffer input c =
     (case parse msg input of
        Inl e \<Rightarrow> Some (Inl (BadDescription e), c)
      | Inr (again, msg, input') \<Rightarrow>
          if \<not> again then Some (Inr (), c)
          else (case exchange os pico quiet sockfd counter msg buffer c of
                  None \<Rightarrow> None
                | Some (Inl e, c) \<Rightarrow> Some (Inl e, c)
                | Some (Inr (msg, buffer), c) \<Rightarrow> query_loop os pico quiet sockfd (counter + 1) msg buffer input' c))"
  by pat_completeness auto

termination query_loop
  by (relation "measure (\<lambda>(_, _, _, _, _, _, _, input, _). length input)") (auto dest: parse_consumes)

declare query_loop.simps [simp del]

text \<open>The command line; \<open>Inl\<close> is an exit code, after a help text in the first three cases.\<close>

record cli =
  cli_ip :: "string option"
  cli_port :: "string option"
  cli_quiet :: bool
  cli_json :: bool
  cli_query :: string

fun parse_switches :: "string \<Rightarrow> cli \<Rightarrow> int + cli" where
  "parse_switches [] o1 = Inr o1"
| "parse_switches (s # ss) o1 =
     (if s = CHR ''h'' then Inl 0
      else if s = CHR ''H'' then Inl 0
      else if s = CHR ''q'' then parse_switches ss (o1\<lparr>cli_quiet := True\<rparr>)
      else if s = CHR ''j'' then parse_switches ss (o1\<lparr>cli_json := True\<rparr>)
      else Inl 1)"

fun parse_cli :: "string list \<Rightarrow> cli \<Rightarrow> int + cli" where
  "parse_cli [] o1 = (if cli_ip o1 = None \<or> cli_port o1 = None then Inl 1 else Inr o1)"
| "parse_cli (a # as) o1 =
     (if a \<noteq> [] \<and> hd a = CHR ''-''
      then (case parse_switches (tl a) o1 of Inl r \<Rightarrow> Inl r | Inr o1 \<Rightarrow> parse_cli as o1)
      else if cli_ip o1 = None then parse_cli as (o1\<lparr>cli_ip := Some a\<rparr>)
      else if cli_port o1 = None then parse_cli as (o1\<lparr>cli_port := Some a\<rparr>)
      else parse_cli as (o1\<lparr>cli_query := cli_query o1 @ '' '' @ a\<rparr>))"

definition cli_init :: cli where
  "cli_init = \<lparr>cli_ip = None, cli_port = None, cli_quiet = False, cli_json = False, cli_query = []\<rparr>"

text \<open>
  \<open>main\<close> for the arguments behind the program name, the text of the standard input and the
  initial contents of the buffer.
\<close>

definition nhac_main ::
    "'w client_os \<Rightarrow> (bytes \<Rightarrow> bytes) \<Rightarrow> bytes \<Rightarrow> string list \<Rightarrow> string \<Rightarrow> 'w client \<Rightarrow> (int \<times> 'w client) option" where
  "nhac_main os pico buffer args cin c =
     (case parse_cli args cli_init of
        Inl r \<Rightarrow> Some (r, c)
      | Inr o1 \<Rightarrow>
          let input = (if cli_query o1 = [] then cin else cli_query o1);
              failed = (\<lambda>sockfd c. Some (1, snd (disconnectFromNha os sockfd c)))
          in case connectToNha os (the (cli_ip o1)) (the (cli_port o1)) c of
               None \<Rightarrow> None
             | Some (Inl e, c) \<Rightarrow> failed (- 1) c
             | Some (Inr sockfd, c) \<Rightarrow>
                 (case query_loop os pico (cli_quiet o1) sockfd 0
                         \<lparr>tlvs = [], receivedMd5 = None, calculatedMd5 = None, xoredMd5 = None\<rparr> buffer input c of
                    None \<Rightarrow> None
                  | Some (Inl e, c) \<Rightarrow> failed sockfd c
                  | Some (Inr _, c) \<Rightarrow> Some (0, c)))"

end
