(* ===== verification/Nhac_MessageProps.thy ===== *)
theory Nhac_MessageProps
  imports Nhac_Message
begin

unbundle bit_operations_syntax

text \<open>
  Correctness of the client's messages: its integer codec is that of the daemon, its
  deserialisation accepts the same record syntax and never leaves the buffer, and
  serialisation is inverted by it as long as no value exceeds 255 bytes.
\<close>

section \<open>The integer codec\<close>

lemma nhac_toLE32_eq: "nhac_toLE32 = size_field"
  by (rule ext) (simp add: nhac_toLE32_def size_field_bytes ucast_and_ff)

lemma nhac_fromLE32_eq: "nhac_fromLE32 = fromLE32"
  by (rule ext) (simp add: nhac_fromLE32_def fromLE32_def)

interpretation nhac_le32: byte_codec nhac_toLE32 nhac_fromLE32 4
  unfolding nhac_toLE32_eq nhac_fromLE32_eq by unfold_locales (simp_all add: fromLE32_size_field)

section \<open>Records\<close>

lemma and_then_simps [simp]:
  "and_then (Some (Inr x)) k = k x" "and_then (Some (Inl e)) k = Some (Inl e)" "and_then None k = None"
  by (simp_all add: and_then_def)

lemma checked_Some [simp]: "checked (Some x) = Some (Inr x)"
  by (simp add: checked_def)

lemma checked_None [simp]: "checked None = None"
  by (simp add: checked_def)

lemma rethrow_simps [simp]: "rethrow f (Some (Inr x)) = Some (Inr x)" "rethrow f (Some (Inl e)) = Some (Inl (f e))"
  by (simp_all add: rethrow_def)

definition mk_tlv :: "tlv_record \<Rightarrow> nhac_tlv" where
  "mk_tlv r = \<lparr>tlv_tag = fst r, tlv_value = snd r\<rparr>"

definition tlv_bytes :: "nhac_tlv \<Rightarrow> bytes" where
  "tlv_bytes t = tlv_tag t # of_nat (length (tlv_value t)) # tlv_value t"

definition body_bytes :: "nhac_tlv list \<Rightarrow> bytes" where
  "body_bytes ts = concat (map tlv_bytes ts)"

definition short_values :: "nhac_tlv list \<Rightarrow> bool" where
  "short_values ts \<longleftrightarrow> list_all (\<lambda>t. length (tlv_value t) < 256) ts"

lemma unat_length_u8: "length v < 256 \<Longrightarrow> unat (of_nat (length v) :: u8) = length v"
  by (simp add: unat_of_nat)

lemma unat_of_nat_lt32: "k < 2 ^ 32 \<Longrightarrow> unat (of_nat k :: u32) = k"
  by (simp add: unat_of_nat)

lemma ucast_length_u8: "length v < 256 \<Longrightarrow> (ucast (of_nat (length v) :: u8) :: u32) = of_nat (length v)"
  by (rule word_unat_eq_iff [THEN iffD2]) (simp add: unat_ucast_up unat_of_nat)

lemma parse_body_bytes: "short_values ts \<Longrightarrow> parse_tlvs (body_bytes ts) = Some (map (\<lambda>t. (tlv_tag t, tlv_value t)) ts)"
  by (induction ts) (simp_all add: body_bytes_def short_values_def tlv_bytes_def unat_length_u8)

lemma mk_tlv_inverse [simp]: "mk_tlv (tlv_tag t, tlv_value t) = t"
  by (simp add: mk_tlv_def)

lemma TLV_deserialize_in:
  assumes "pos + n \<le> length buf" and "2 \<le> n"
  shows "TLV_deserialize buf pos n =
    (let len = buf ! Suc pos in
     if n < 2 + unat len then Some (Inl (NoValue n (buf ! pos) len))
     else Some (Inr (mk_tlv (buf ! pos, take (unat len) (drop (pos + 2) buf)), 2 + unat len)))"
  using assms by (simp add: TLV_deserialize_def rd_in rd_bytes_in Let_def mk_tlv_def)

text \<open>The loop over the records accepts what the daemon's record syntax accepts.\<close>

lemma deserialize_tlvs_parse:
  assumes "pos \<le> endPos" and "endPos \<le> length buf"
  shows "case parse_tlvs (take (endPos - pos) (drop pos buf)) of
      None \<Rightarrow> \<exists>e. deserialize_tlvs cs buf pos endPos = Some (Inl e)
    | Some recs \<Rightarrow> deserialize_tlvs cs buf pos endPos = Some (Inr (map mk_tlv recs, endPos))"
  using assms
proof (induction "endPos - pos" arbitrary: pos rule: less_induct)
  case less
  consider "endPos = pos" | "endPos - pos = 1" | "2 \<le> endPos - pos" using less.prems(1) by linarith
  then show ?case
  proof cases
    case 1
    then show ?thesis by (simp add: deserialize_tlvs.simps)
  next
    case 2
    then have "take (endPos - pos) (drop pos buf) = [buf ! pos]" "pos < endPos"
      using less.prems take_Suc_nth [of pos buf 0] by simp_all
    then show ?thesis using 2 by (subst deserialize_tlvs.simps) (simp add: TLV_deserialize_def)
  next
    case 3
    let ?n = "endPos - pos"
    define len where "len = buf ! Suc pos"
    have pn: "pos + ?n \<le> length buf" "pos + 2 \<le> length buf" using 3 less.prems by simp_all
    note body = take_drop_Cons2 [OF pn(2) 3, folded len_def]
    note tlv1 = TLV_deserialize_in [OF pn(1) 3, folded len_def, unfolded Let_def]
    show ?thesis
    proof (cases "?n < 2 + unat len")
      case True
      then have "parse_tlvs (take ?n (drop pos buf)) = None"
        using 3 less.prems unfolding body by auto
      moreover have "deserialize_tlvs cs buf pos endPos =
          Some (Inl (CannotDeserializeTLV pos cs (NoValue ?n (buf ! pos) len)))"
        using True 3 by (subst deserialize_tlvs.simps) (simp add: tlv1)
      ultimately show ?thesis by simp
    next
      case False
      define v where "v = take (unat len) (drop (pos + 2) buf)"
      define rest where "rest = take (endPos - (pos + (2 + unat len))) (drop (pos + (2 + unat len)) buf)"
      have parse: "parse_tlvs (take ?n (drop pos buf)) = map_option ((#) (buf ! pos, v)) (parse_tlvs rest)"
        using False 3 less.prems unfolding body
        by (auto simp: v_def rest_def drop_take min_def add.commute add.left_commute)
      have step: "deserialize_tlvs cs buf pos endPos =
          and_then (deserialize_tlvs cs buf (pos + (2 + unat len)) endPos)
            (\<lambda>(ts, p). Some (Inr (mk_tlv (buf ! pos, v) # ts, p)))"
      proof -
        have "pos < endPos" using 3 by simp
        with False show ?thesis by (subst deserialize_tlvs.simps) (simp add: tlv1 v_def)
      qed
      have "endPos - (pos + (2 + unat len)) < ?n" "pos + (2 + unat len) \<le> endPos" using False 3 by auto
      from less.hyps [OF this less.prems(2)] show ?thesis
        unfolding step parse rest_def [symmetric] by (cases "parse_tlvs rest") auto
    qed
  qed
qed

section \<open>Deserialisation\<close>

lemma Message_deserialize_spec:
  assumes n: "n \<le> length buf" and sz: "sz = unat (nhac_fromLE32 (take 4 buf))"
  shows "case (if 20 \<le> sz \<and> sz \<le> n then parse_tlvs (drop 4 (take (sz - 16) buf)) else None) of
      None \<Rightarrow> \<exists>e. Message_deserialize pico m buf n = Some (Inl e)
    | Some recs \<Rightarrow>
        let received = take 16 (drop (sz - 16) buf); calculated = pico (take (sz - 16) buf) in
        Message_deserialize pico m buf n = Some (Inr (m\<lparr>
          tlvs := map mk_tlv recs, receivedMd5 := Some received, calculatedMd5 := Some calculated,
          xoredMd5 := Some (map (\<lambda>i. received ! i XOR calculated ! i) [0..<16])\<rparr>, sz))"
proof (cases "20 \<le> sz \<and> sz \<le> n")
  case False
  have "\<exists>e. Message_deserialize pico m buf n = Some (Inl e)"
  proof (cases "n < 20")
    case True
    then show ?thesis by (simp add: Message_deserialize_def)
  next
    case n20: False
    then have "rd_bytes buf 0 4 = Some (take 4 buf)" using n by (simp add: rd_bytes_in)
    then show ?thesis using False n20 sz
      by (auto simp: Message_deserialize_def Let_def word_less_nat_alt)
  qed
  then show ?thesis unfolding if_not_P [OF False] by simp
next
  case True
  let ?cs = "nhac_fromLE32 (take 4 buf)"
  have r4: "rd_bytes buf 0 4 = Some (take 4 buf)" using n True by (simp add: rd_bytes_in)
  have ep: "unat (?cs - 16) = sz - 16" using True sz by (simp add: unat_sub word_le_nat_alt)
  have "sz - 16 \<le> length buf" "sz - 16 + 16 \<le> length buf" using n True by linarith+
  then have rds: "rd_bytes buf (sz - 16) 16 = Some (take 16 (drop (sz - 16) buf))"
      "rd_bytes buf 0 (sz - 16) = Some (take (sz - 16) buf)"
    by (simp_all add: rd_bytes_in)
  have md: "Message_deserialize pico m buf n = and_then (deserialize_tlvs ?cs buf 4 (sz - 16)) (\<lambda>(newTlvs, pos).
      and_then (checked (rd_bytes buf pos 16)) (\<lambda>received.
      and_then (checked (rd_bytes buf 0 pos)) (\<lambda>dat.
        Some (Inr (m\<lparr>receivedMd5 := Some received, calculatedMd5 := Some (pico dat),
          xoredMd5 := Some (map (\<lambda>i. received ! i XOR pico dat ! i) [0..<16]), tlvs := newTlvs\<rparr>, pos + 16)))))"
    using True sz r4 ep by (auto simp: Message_deserialize_def Let_def word_less_nat_alt)
  have "take (sz - 16 - 4) (drop 4 buf) = drop 4 (take (sz - 16) buf)" by (simp add: drop_take)
  moreover have "4 \<le> sz - 16" "sz - 16 \<le> length buf" using True n by linarith+
  ultimately show ?thesis using deserialize_tlvs_parse [of 4 "sz - 16" buf ?cs] True
    unfolding md by (cases "parse_tlvs (drop 4 (take (sz - 16) buf))") (auto simp: rds Let_def)
qed

text \<open>
  C10: if the length handed to it is within the buffer, the deserialisation reads no byte outside
  the buffer, whatever the bytes are (its caller hands on the size field of the answer instead of
  the number of bytes received, so that this condition is not ensured there); it accepts exactly the messages whose
  size field lies between 20 and that length and whose body splits into records in the same
  syntax that the daemon uses, and it recovers these records, the checksum received and its
  XOR with the checksum calculated.
\<close>

theorem Message_deserialize_exact:
  assumes n: "n \<le> length buf" and sz: "sz = unat (nhac_fromLE32 (take 4 buf))"
  shows "case (if 20 \<le> sz \<and> sz \<le> n then parse_tlvs (drop 4 (take (sz - 16) buf)) else None) of
      None \<Rightarrow> \<exists>e. Message_deserialize pico m buf n = Some (Inl e)
    | Some recs \<Rightarrow>
        let received = take 16 (drop (sz - 16) buf); calculated = pico (take (sz - 16) buf) in
        Message_deserialize pico m buf n = Some (Inr (m\<lparr>
          tlvs := map mk_tlv recs, receivedMd5 := Some received, calculatedMd5 := Some calculated,
          xoredMd5 := Some (map (\<lambda>i. received ! i XOR calculated ! i) [0..<16])\<rparr>, sz))"
  by (rule Message_deserialize_spec [OF assms])

section \<open>Serialisation\<close>

lemma length_tlv_bytes [simp]: "length (tlv_bytes t) = 2 + length (tlv_value t)"
  by (simp add: tlv_bytes_def)

lemma body_bytes_Cons [simp]: "body_bytes (t # ts) = tlv_bytes t @ body_bytes ts"
  by (simp add: body_bytes_def)

lemma serialize_tlvs_spec:
  assumes "pos + length (body_bytes ts) \<le> n" and "n \<le> length buf"
  shows "serialize_tlvs cs ts buf pos n =
    Some (Inr (take pos buf @ body_bytes ts @ drop (pos + length (body_bytes ts)) buf, pos + length (body_bytes ts)))"
  using assms
proof (induction ts arbitrary: buf pos)
  case Nil
  then show ?case by (simp add: body_bytes_def)
next
  case (Cons t ts)
  let ?k = "2 + length (tlv_value t)"
  let ?buf = "take pos buf @ tlv_bytes t @ drop (pos + ?k) buf"
  have "wr_bytes buf pos (tlv_bytes t) = Some ?buf"
    using Cons.prems by (subst wr_bytes_in) simp_all
  then have "TLV_serialize t buf pos (n - pos) = Some (Inr (?buf, ?k))"
    using Cons.prems by (simp add: TLV_serialize_def tlv_bytes_def [symmetric])
  moreover have "length ?buf = length buf" using Cons.prems by simp
  ultimately show ?case
    using Cons.IH [of "pos + ?k" ?buf] Cons.prems by (simp add: ac_simps)
qed

lemma complete_size:
  assumes "short_values (tlvs m)"
  shows "getCompleteSizeOfMsgInBytes m = of_nat (20 + length (body_bytes (tlvs m)))"
proof -
  have "foldl (\<lambda>sz t. sz + (2 + ucast (TLV_getLength t))) a ts = a + of_nat (length (body_bytes ts))"
    if "short_values ts" for ts and a :: u32
    using that
  proof (induction ts arbitrary: a)
    case (Cons t ts)
    have "(ucast (TLV_getLength t) :: u32) = of_nat (length (tlv_value t))"
      using Cons.prems by (simp add: TLV_getLength_def short_values_def ucast_length_u8)
    then show ?case using Cons by (simp add: short_values_def)
  qed (simp add: body_bytes_def)
  then show ?thesis using assms by (simp add: getCompleteSizeOfMsgInBytes_def)
qed

text \<open>The bytes of a message on the wire.\<close>

definition wire :: "(bytes \<Rightarrow> bytes) \<Rightarrow> nhac_tlv list \<Rightarrow> bytes" where
  "wire pico ts = (let m = nhac_toLE32 (of_nat (20 + length (body_bytes ts))) @ body_bytes ts in m @ pico m)"

definition wire_md5 :: "(bytes \<Rightarrow> bytes) \<Rightarrow> nhac_tlv list \<Rightarrow> bytes" where
  "wire_md5 pico ts = pico (nhac_toLE32 (of_nat (20 + length (body_bytes ts))) @ body_bytes ts)"

lemma Message_serialize_spec:
  assumes "short_values (tlvs m)" and "\<And>b. length (pico b) = 16"
    and "20 + length (body_bytes (tlvs m)) \<le> n" and "n \<le> length buf" and "n < 2 ^ 32"
  shows "Message_serialize pico m buf n = Some (Inr (
      m\<lparr>calculatedMd5 := Some (wire_md5 pico (tlvs m)), receivedMd5 := None, xoredMd5 := None\<rparr>,
      wire pico (tlvs m) @ drop (20 + length (body_bytes (tlvs m))) buf, 20 + length (body_bytes (tlvs m))))"
proof -
  let ?b = "body_bytes (tlvs m)"
  let ?h = "nhac_toLE32 (of_nat (20 + length ?b))"
  have h: "length ?h = 4" by (rule nhac_le32.enc_length)
  have un: "unat (of_nat (20 + length ?b) :: u32) = 20 + length ?b"
    by (rule unat_of_nat_lt32) (use assms(3,5) in simp)
  let ?buf1 = "?h @ drop 4 buf"
  have w1: "wr_bytes buf 0 ?h = Some ?buf1" using assms(3,4) h by (simp add: wr_bytes_in)
  let ?buf2 = "?h @ ?b @ drop (4 + length ?b) buf"
  have s: "serialize_tlvs cs (tlvs m) ?buf1 4 n = Some (Inr (?buf2, 4 + length ?b))" for cs
    using serialize_tlvs_spec [of 4 "tlvs m" n ?buf1 cs] assms(3,4) h by (simp add: add.commute)
  have r: "rd_bytes ?buf2 0 (4 + length ?b) = Some (?h @ ?b)" using h by (simp add: rd_bytes_in)
  have w2: "wr_bytes ?buf2 (4 + length ?b) (pico (?h @ ?b)) =
      Some (wire pico (tlvs m) @ drop (20 + length ?b) buf)"
    using assms(2,3,4) h by (subst wr_bytes_in) (simp_all add: wire_def Let_def add.commute del: of_nat_add)
  have l: "length (wire pico (tlvs m)) = 20 + length ?b" using h assms(2) by (simp add: wire_def Let_def del: of_nat_add)
  have md: "rd_bytes (wire pico (tlvs m) @ drop (20 + length ?b) buf) (4 + length ?b) 16 = Some (wire_md5 pico (tlvs m))"
    using l h assms(2) by (simp add: rd_bytes_in wire_def wire_md5_def Let_def del: of_nat_add)
  show ?thesis
    unfolding Message_serialize_def complete_size [OF assms(1)] Let_def un
    using assms(3) w1 s r w2 md by (simp del: of_nat_add)
qed

lemma length_wire: "(\<And>b. length (pico b) = 16) \<Longrightarrow> length (wire pico ts) = 20 + length (body_bytes ts)"
  using nhac_le32.enc_length by (simp add: wire_def Let_def del: of_nat_add)

text \<open>The client reads a message on the wire back, whatever follows it in the buffer.\<close>

lemma Message_deserialize_wire:
  assumes "short_values ts" and "\<And>b. length (pico b) = 16" and small: "20 + length (body_bytes ts) < 2 ^ 32"
  shows "Message_deserialize pico m (wire pico ts @ xs) (20 + length (body_bytes ts)) = Some (Inr (
    m\<lparr>tlvs := ts, receivedMd5 := Some (wire_md5 pico ts), calculatedMd5 := Some (wire_md5 pico ts),
      xoredMd5 := Some (replicate 16 0)\<rparr>, 20 + length (body_bytes ts)))"
proof -
  let ?b = "body_bytes ts" and ?buf = "wire pico ts @ xs"
  define h where "h = nhac_toLE32 (of_nat (20 + length ?b))"
  have h: "length h = 4" unfolding h_def by (rule nhac_le32.enc_length)
  have buf: "?buf = h @ ?b @ pico (h @ ?b) @ xs" by (simp add: wire_def Let_def h_def)
  have "nhac_fromLE32 (take 4 ?buf) = of_nat (20 + length ?b)"
    unfolding buf h_def by (rule nhac_le32.dec_take)
  then have sz: "20 + length ?b = unat (nhac_fromLE32 (take 4 ?buf))"
    using unat_of_nat_lt32 [OF small] by simp
  have le: "20 + length ?b \<le> length ?buf" using length_wire [OF assms(2)] by simp
  have parts: "drop 4 (h @ ?b) = ?b" "take (4 + length ?b) ?buf = h @ ?b"
      "take 16 (drop (4 + length ?b) ?buf) = pico (h @ ?b)"
    using h assms(2) by (simp_all add: buf)
  have x: "map (\<lambda>i. 0) [0..<16] = replicate 16 (0 :: u8)" by (simp add: map_replicate_const)
  have md: "wire_md5 pico ts = pico (h @ ?b)" by (simp add: wire_md5_def h_def)
  have n: "20 + length ?b - 16 = 4 + length ?b" by simp
  show ?thesis
    using Message_deserialize_spec [OF le sz, of pico m] parse_body_bytes [OF assms(1)]
    unfolding n parts md by (simp add: x o_def Let_def)
qed

text \<open>
  C14: what the client serialises it deserialises to the same records, and the two checksums
  agree, so their XOR is zero, provided that no value is longer than 255 bytes and the message
  fits the buffer.
\<close>

theorem Message_roundtrip:
  assumes "short_values (tlvs m)" and "\<And>b. length (pico b) = 16"
    and "20 + length (body_bytes (tlvs m)) \<le> n" and "n \<le> length buf" and "n < 2 ^ 32"
  shows "\<exists>m1 buf' k m2. Message_serialize pico m buf n = Some (Inr (m1, buf', k)) \<and> k \<le> n \<and>
    Message_deserialize pico m1 buf' k = Some (Inr (m2, k)) \<and>
    tlvs m2 = tlvs m \<and> receivedMd5 m2 = calculatedMd5 m2 \<and> xoredMd5 m2 = Some (replicate 16 0)"
proof -
  let ?k = "20 + length (body_bytes (tlvs m))"
  let ?m1 = "m\<lparr>calculatedMd5 := Some (wire_md5 pico (tlvs m)), receivedMd5 := None, xoredMd5 := None\<rparr>"
  have "Message_serialize pico m buf n = Some (Inr (?m1, wire pico (tlvs m) @ drop ?k buf, ?k))"
    by (rule Message_serialize_spec [OF assms])
  moreover have "?k < 2 ^ 32" using assms(3,5) by simp
  ultimately show ?thesis
    using Message_deserialize_wire [OF assms(1,2), where m = ?m1] assms(3) by fastforce
qed

text \<open>
  A query for the device ID, as the examples of the client write it, with a checksum function
  that returns sixteen bytes.
\<close>

definition device_id_query :: message where
  "device_id_query = \<lparr>tlvs = map mk_tlv
      [(0x00, [0x4e, 0x48, 0x41, 0x31]), (0x01, [0, 0, 0, 1]), (0x02, [1]), (0x03, [0]), (0x91, [])],
     receivedMd5 = None, calculatedMd5 = None, xoredMd5 = None\<rparr>"

definition sample_md5 :: "bytes \<Rightarrow> bytes" where
  "sample_md5 b = replicate 16 (of_nat (length b))"

lemma length_sample_md5 [simp]: "length (sample_md5 b) = 16"
  by (simp add: sample_md5_def)

theorem Message_roundtrip_witness:
  "\<exists>m1 buf' k m2. Message_serialize sample_md5 device_id_query (replicate 64 0) 64 = Some (Inr (m1, buf', k)) \<and> k \<le> 64 \<and>
    Message_deserialize sample_md5 m1 buf' k = Some (Inr (m2, k)) \<and>
    tlvs m2 = tlvs device_id_query \<and> receivedMd5 m2 = calculatedMd5 m2 \<and> xoredMd5 m2 = Some (replicate 16 0)"
  by (rule Message_roundtrip) (simp_all add: device_id_query_def short_values_def body_bytes_def tlv_bytes_def mk_tlv_def)

definition sample_answer :: bytes where
  "sample_answer = [23, 0, 0, 0, 0x11, 1, 9] @ replicate 16 5"

theorem Message_deserialize_exact_witness:
  "\<exists>m'. Message_deserialize sample_md5 device_id_query sample_answer 23 = Some (Inr (m', 23)) \<and>
    tlvs m' = [\<lparr>tlv_tag = 0x11, tlv_value = [9]\<rparr>] \<and> xoredMd5 m' = Some (replicate 16 2)"
proof -
  have le: "23 \<le> length sample_answer" by (simp add: sample_answer_def)
  have sz: "23 = unat (nhac_fromLE32 (take 4 sample_answer))" by (simp add: sample_answer_def nhac_fromLE32_def)
  have parts: "take 16 (drop (23 - 16) sample_answer) = replicate 16 5"
      "take (23 - 16) sample_answer = [23, 0, 0, 0, 0x11, 1, 9]" "sample_md5 [23, 0, 0, 0, 0x11, 1, 9] = replicate 16 7"
    by (simp_all add: sample_answer_def sample_md5_def)
  have x: "map (\<lambda>i. replicate 16 5 ! i XOR replicate 16 7 ! i) [0..<16] = replicate 16 (2 :: u8)"
    by (rule nth_equalityI) simp_all
  have p: "(if 20 \<le> (23 :: nat) \<and> (23 :: nat) \<le> 23 then parse_tlvs (drop 4 [23, 0, 0, 0, 0x11, 1, 9]) else None) = Some [(0x11, [9])]"
    by simp
  show ?thesis
    using Message_deserialize_exact [OF le sz, of sample_md5 device_id_query]
    unfolding parts Let_def x p by (simp add: mk_tlv_def)
qed

section \<open>Values that are too long\<close>

lemma wr_bytes_out: "p \<le> length buf \<Longrightarrow> length buf < p + length vs \<Longrightarrow> wr_bytes buf p vs = None"
  by (induction vs arbitrary: buf p) (auto simp: wr_def)

text \<open>
  C24: the length of a value is truncated to a byte when the client computes the size of a
  message, but all its bytes are written. A message whose truncated size passes the check
  of the size, while its records end within sixteen bytes of the end of the buffer, makes the
  client write its checksum behind the buffer.
\<close>

theorem Message_serialize_overflow:
  assumes "unat (getCompleteSizeOfMsgInBytes m) \<le> length buf" and "\<And>b. length (pico b) = 16"
    and "4 + length (body_bytes (tlvs m)) \<le> length buf" and "length buf < 20 + length (body_bytes (tlvs m))"
  shows "Message_serialize pico m buf (length buf) = None"
proof -
  let ?b = "body_bytes (tlvs m)" and ?h = "nhac_toLE32 (getCompleteSizeOfMsgInBytes m)"
  have h: "length ?h = 4" by (rule nhac_le32.enc_length)
  let ?buf1 = "?h @ drop 4 buf" and ?buf2 = "?h @ ?b @ drop (4 + length ?b) buf"
  have w1: "wr_bytes buf 0 ?h = Some ?buf1" using assms(3) h by (simp add: wr_bytes_in)
  have s: "serialize_tlvs cs (tlvs m) ?buf1 4 (length buf) = Some (Inr (?buf2, 4 + length ?b))" for cs
    using serialize_tlvs_spec [of 4 "tlvs m" "length buf" ?buf1 cs] assms(3) h by (simp add: add.commute)
  have r: "rd_bytes ?buf2 0 (4 + length ?b) = Some (?h @ ?b)" using h by (simp add: rd_bytes_in)
  have w2: "wr_bytes ?buf2 (4 + length ?b) (pico (?h @ ?b)) = None"
    using assms(2-4) h by (intro wr_bytes_out) simp_all
  show ?thesis using assms(1) w1 s r w2 by (simp add: Message_serialize_def Let_def)
qed

theorem Message_serialize_overflow_witness:
  "Message_serialize sample_md5 (Message_add \<lparr>tlv_tag = 4, tlv_value = replicate 65530 0\<rparr> (Message_clear device_id_query))
     (replicate 65536 0) 65536 = None"
proof -
  let ?m = "Message_add \<lparr>tlv_tag = 4, tlv_value = replicate 65530 0\<rparr> (Message_clear device_id_query)"
  have "(of_nat 65530 :: u8) = 250" by simp
  then have "unat (getCompleteSizeOfMsgInBytes ?m) = 272"
    by (simp add: getCompleteSizeOfMsgInBytes_def Message_add_def Message_clear_def TLV_getLength_def)
  moreover have "length (body_bytes (tlvs ?m)) = 65532"
    by (simp add: Message_add_def Message_clear_def body_bytes_def)
  ultimately show ?thesis
    using Message_serialize_overflow [of ?m "replicate 65536 0" sample_md5] by simp
qed

end
