(* ===== verification/Nhac_ParserProps.thy ===== *)
theory Nhac_ParserProps
  imports Nhac_Parser Nhac_MessageProps
begin

unbundle bit_operations_syntax

text \<open>
  Correctness of the parser of query descriptions: it inverts the description of a message
  by hexadecimal bytes, it makes progress on every message, and the macro for the header
  means what the help text says.
\<close>

section \<open>Tokens\<close>

named_theorems lex_simps \<open>evaluation of the tokenizer on characters\<close>

lemmas char_classes = is_space_def is_alnum_def is_digit_def is_alpha_def is_xdigit_def

declare char_classes [lex_simps]

lemma skip_blanks_blank [lex_simps]: "is_space c \<or> c = CHR '','' \<Longrightarrow> skip_blanks (c # is) = skip_blanks is"
  by (subst (1 2) skip_blanks.simps) simp

lemma skip_blanks_stop [lex_simps]: "\<not> is_space c \<Longrightarrow> c \<noteq> CHR '','' \<Longrightarrow> c \<noteq> CHR ''#'' \<Longrightarrow> skip_blanks (c # is) = c # is"
  by (subst skip_blanks.simps) simp

lemma skip_blanks_Nil [simp, lex_simps]: "skip_blanks [] = []"
  by (simp add: skip_blanks.simps)

lemma nextToken_blank: "is_space c \<or> c = CHR '','' \<Longrightarrow> nextToken (c # is) = nextToken is"
  by (simp add: nextToken_def skip_blanks_blank)

lemma alnum_not_blank: "is_alnum c \<Longrightarrow> \<not> is_space c \<and> c \<noteq> CHR '','' \<and> c \<noteq> CHR ''#'' \<and> c \<noteq> CHR 0x22"
  by (auto simp: char_classes)

lemma nextToken_word:
  assumes "w \<noteq> []" and "list_all is_alnum w" and "\<not> is_alnum c"
  shows "nextToken (w @ c # is) = (w, c # is)"
proof -
  obtain d w' where w: "w = d # w'" "is_alnum d" "list_all is_alnum w'" using assms(1,2) by (cases w) auto
  then have "takeWhile is_alnum (w' @ c # is) = w'" "dropWhile is_alnum (w' @ c # is) = c # is"
    using assms(3) by (auto simp: list_all_iff takeWhile_tail dropWhile_append3)
  then show ?thesis using w alnum_not_blank [OF w(2)] by (simp add: nextToken_def skip_blanks_stop)
qed

lemma nextToken_mark:
  "c \<in> {CHR ''('', CHR '')'', CHR ''{'', CHR ''}''} \<Longrightarrow> nextToken (c # is) = ([c], is)"
  by (auto simp: nextToken_def lex_simps)

section \<open>Hexadecimal bytes\<close>

lemma xDigits_nth:
  assumes "n < 16"
  shows "is_xdigit (xDigits ! n) \<and> is_alnum (xDigits ! n) \<and> xdigit_value (xDigits ! n) = n"
proof -
  have "n \<in> {0, 1, 2, 3, 4, 5, 6, 7, 8, 9, 10, 11, 12, 13, 14, 15}"
    using assms by (simp, arith)
  then show ?thesis by (elim insertE emptyE) (simp_all add: xDigits_def char_classes xdigit_value_def)
qed

lemma nibbles: "unat (drop_bit 4 b AND 0xf :: u8) < 16" "unat (b AND 0xf :: u8) < 16"
  "16 * unat (drop_bit 4 b AND 0xf) + unat (b AND 0xf :: u8) = unat b"
proof -
  have "(0xf :: u8) = mask 4" by (simp add: mask_eq_exp_minus_1)
  then have "x AND 0xf = take_bit 4 x" for x :: u8 by (simp add: take_bit_eq_mask)
  then have n: "unat (x AND 0xf) = unat x mod 16" for x :: u8 by (simp add: take_bit_eq_mod unat_mod)
  have d: "unat (drop_bit 4 b) = unat b div 16" by (simp add: drop_bit_eq_div unat_div)
  have "unat b div 16 mod 16 = unat b div 16" using unat_u8_less [of b] by simp
  then show "unat (drop_bit 4 b AND 0xf) < 16" "unat (b AND 0xf) < 16"
    "16 * unat (drop_bit 4 b AND 0xf) + unat (b AND 0xf) = unat b"
    using d by (simp_all add: n)
qed

lemma upper_x: "to_upper CHR ''x'' = CHR ''X''"
  by code_simp

lemma toHex_token:
  "list_all is_alnum (toHex b True)" "toHex b True \<noteq> []" "is_hex_byte (toHex b True)" "hex_byte_value (toHex b True) = b"
proof -
  note x = xDigits_nth [OF nibbles(1) [of b]] xDigits_nth [OF nibbles(2) [of b]]
  then show "list_all is_alnum (toHex b True)" by (simp add: toHex_def char_classes)
  show "toHex b True \<noteq> []" by (simp add: toHex_def)
  show "is_hex_byte (toHex b True)" using x upper_x by (simp add: toHex_def is_hex_byte_def)
  have "hex_byte_value (toHex b True) = of_nat (unat b)"
    using x nibbles(3) [of b] by (simp add: toHex_def hex_byte_value_def)
  then show "hex_byte_value (toHex b True) = b" by simp
qed

section \<open>Round trip\<close>

text \<open>A message described by the bytes of its tags and values.\<close>

definition describe_bytes :: "bytes \<Rightarrow> string" where
  "describe_bytes v = concat (map (\<lambda>b. '' '' @ toHex b True) v)"

definition describe_tlv :: "nhac_tlv \<Rightarrow> string" where
  "describe_tlv t = '' '' @ toHex (tlv_tag t) True @ ''('' @ describe_bytes (tlv_value t) @ '')''"

definition describe :: "nhac_tlv list \<Rightarrow> string" where
  "describe ts = ''{'' @ concat (map describe_tlv ts) @ ''}''"

lemma nextToken_hex: "\<not> is_alnum c \<Longrightarrow> nextToken (CHR '' '' # toHex b True @ c # is) = (toHex b True, c # is)"
  by (simp add: nextToken_blank blank_chars nextToken_word toHex_token)

lemma parse_values_describe:
  "(case nextToken (describe_bytes v @ '')'' @ is) of (token, is) \<Rightarrow> parse_values args token is) = Inr (args @ v, '')'', is)"
proof (induction v arbitrary: args)
  case Nil
  then show ?case by (simp add: describe_bytes_def nextToken_mark parse_values.simps)
next
  case (Cons b v)
  let ?rest = "describe_bytes v @ '')'' @ is"
  obtain c cs where c: "?rest = c # cs" "\<not> is_alnum c"
    by (cases v) (auto simp: describe_bytes_def char_classes)
  have "nextToken (describe_bytes (b # v) @ '')'' @ is) = (toHex b True, ?rest)"
    using nextToken_hex [OF c(2), of b cs] c(1) by (simp add: describe_bytes_def)
  moreover have "toHex b True \<noteq> '')''" by (simp add: toHex_def)
  moreover have "parse_values args (toHex b True) ?rest =
      (case nextToken ?rest of (token, is) \<Rightarrow> parse_values (args @ [b]) token is)" if "toHex b True \<noteq> '')''"
    using that toHex_token [of b] by (subst parse_values.simps) (simp add: parse_value_def)
  ultimately show ?case using Cons.IH [of "args @ [b]"] by simp
qed

lemma parse_tag_args_describe:
  "parse_tag_args (''('' @ describe_bytes v @ '')'' @ is) = (case nextToken is of (token, is) \<Rightarrow> Inr (v, token, is))"
proof -
  obtain t s where n: "nextToken (describe_bytes v @ '')'' @ is) = (t, s)" by fastforce
  with parse_values_describe [of "[]" v "is"] have "parse_values [] t s = Inr (v, '')'', is)" by simp
  with n show ?thesis by (simp add: parse_tag_args_def nextToken_mark)
qed

lemma hex_tag: "is_hex_byte w \<Longrightarrow> w \<noteq> [] \<and> hd w = CHR ''0''"
  by (cases w) (auto simp: is_hex_byte_def)

lemma add_tagged_hex:
  "is_hex_byte w \<Longrightarrow> add_tagged w args msg = Inr (Message_add \<lparr>tlv_tag = hex_byte_value w, tlv_value = args\<rparr> msg)"
  using hex_tag [of w] by (auto simp: add_tagged_def)

lemma parse_items_describe:
  "(case nextToken (concat (map describe_tlv ts) @ ''}'' @ is) of (token, is) \<Rightarrow> parse_items msg token is) =
   Inr (msg\<lparr>tlvs := tlvs msg @ ts\<rparr>, is)"
proof (induction ts arbitrary: msg)
  case Nil
  then show ?case by (simp add: nextToken_mark parse_items.simps)
next
  case (Cons t ts)
  let ?rest = "concat (map describe_tlv ts) @ ''}'' @ is" and ?w = "toHex (tlv_tag t) True"
  let ?is = "''('' @ describe_bytes (tlv_value t) @ '')'' @ ?rest"
  have n: "nextToken (concat (map describe_tlv (t # ts)) @ ''}'' @ is) = (?w, ?is)"
    using nextToken_hex [of "CHR ''(''" "tlv_tag t"] by (simp add: describe_tlv_def char_classes)
  have w: "?w \<notin> {[], ''}'', ''{'', ''('', '')''}" using hex_tag [OF toHex_token(3) [of "tlv_tag t"]] by auto
  have a: "add_tagged ?w (tlv_value t) msg = Inr (Message_add t msg)"
    by (cases t) (simp add: add_tagged_hex toHex_token)
  obtain t' s' where r: "nextToken ?rest = (t', s')" by fastforce
  have p: "parse_tag_args ?is = Inr (tlv_value t, t', s')"
    using parse_tag_args_describe [of "tlv_value t" ?rest] unfolding r by simp
  have "parse_items msg ?w ?is = parse_items (Message_add t msg) t' s'"
    unfolding parse_items.simps [of msg ?w] p using w a by simp
  then show ?case
    using Cons.IH [of "Message_add t msg"] unfolding n r by (simp add: Message_add_def)
qed

lemma parse_describe_spec:
  "parse msg (describe ts @ rest) = Inr (True, (Message_clear msg)\<lparr>tlvs := ts\<rparr>, rest)"
proof -
  obtain t s where n: "nextToken (concat (map describe_tlv ts) @ ''}'' @ rest) = (t, s)" by fastforce
  with parse_items_describe [of "Message_clear msg" ts rest]
  have "parse_items (Message_clear msg) t s = Inr ((Message_clear msg)\<lparr>tlvs := ts\<rparr>, rest)"
    by (simp add: Message_clear_def)
  then show ?thesis using n by (simp add: parse_def describe_def nextToken_mark)
qed

text \<open>
  C11: every message can be described, and the parser inverts the description: it returns the
  records with exactly their tags and values and stops behind the closing brace.
\<close>

theorem parse_describe:
  "parse msg (describe ts @ rest) = Inr (True, (Message_clear msg)\<lparr>tlvs := ts\<rparr>, rest)"
  by (rule parse_describe_spec)

section \<open>Progress\<close>

text \<open>
  C20: every message that the parser returns has consumed at least one character of the input,
  and when it reports the end of the input nothing is left, so the loop of the client over the
  queries of a finite input ends.
\<close>

theorem parse_progress:
  assumes "parse msg is = Inr (again, msg', is')"
  shows "if again then length is' < length is else is' = [] \<and> tlvs msg' = []"
  by (rule parse_consumes [OF assms])

theorem parse_progress_witness: "length (describe [mk_tlv (0x91, [])]) < length (describe [mk_tlv (0x91, [])] @ describe [mk_tlv (0x91, [])])"
proof -
  let ?d = "describe [mk_tlv (0x91, [])]"
  have "parse device_id_query (?d @ ?d) = Inr (True, (Message_clear device_id_query)\<lparr>tlvs := [mk_tlv (0x91, [])]\<rparr>, ?d)"
    by (rule parse_describe_spec)
  from parse_progress [OF this] show ?thesis by simp
qed

section \<open>The help text\<close>

definition message_of :: "tlv_record list \<Rightarrow> message" where
  "message_of recs = \<lparr>tlvs = map mk_tlv recs, receivedMd5 = None, calculatedMd5 = None, xoredMd5 = None\<rparr>"

lemma parse_cleared: "parse msg is = parse (message_of []) is"
proof -
  have "Message_clear msg = Message_clear (message_of [])" by (simp add: Message_clear_def)
  then show ?thesis by (simp add: parse_def)
qed

text \<open>
  The examples of the help text mean what it says: the first one is a query with the flag
  for the masked checksum and the queries for device ID and both timers, the second carries
  eight bytes of user data, of which the first is the lowest, and a record with tag \<open>0x99\<close>, and
  leaves the next query in the input.
\<close>

theorem parse_examples:
  "parse msg ''{H(0x02) d rx tx}'' = Inr (True, message_of
     [(0, [0x4e, 0x48, 0x41, 0x31]), (1, [0, 0, 0, 1]), (2, [1]), (3, [2]), (0x91, []), (0x92, []), (0x93, [])], [])"
  "parse msg ''{H u(578437695752307201L) 0x99} {H d}'' = Inr (True, message_of
     [(0, [0x4e, 0x48, 0x41, 0x31]), (1, [0, 0, 0, 1]), (2, [1]), (3, [0]), (4, [1, 2, 3, 4, 5, 6, 7, 8]), (0x99, [])],
     '' {H d}'')"
  unfolding parse_cleared [of msg] by code_simp+

lemma nextToken_cases:
  assumes "nextToken is = (token, is')"
  shows "token = [] \<or> hd token = CHR 0x22 \<or> length token = 1 \<or> list_all is_alnum token"
proof (cases "skip_blanks is")
  case Nil
  then show ?thesis using assms by (simp add: nextToken_def)
next
  case (Cons c it)
  have w: "list_all is_alnum (takeWhile is_alnum it)" by (auto simp: list_all_iff dest: set_takeWhileD)
  consider "c = CHR 0x22" | "c \<noteq> CHR 0x22" "is_alnum c" | "c \<noteq> CHR 0x22" "\<not> is_alnum c" by blast
  then show ?thesis
  proof cases
    case 1
    then have "hd token = CHR 0x22"
      using assms Cons by (simp add: nextToken_def Let_def del: dropWhile_eq_Nil_conv split: if_split_asm) auto
    then show ?thesis by blast
  next
    case 2
    then have "token = c # takeWhile is_alnum it" using assms Cons by (simp add: nextToken_def)
    then show ?thesis using w 2 by simp
  next
    case 3
    then have "token = [c]" using assms Cons by (simp add: nextToken_def)
    then show ?thesis by simp
  qed
qed

text \<open>
  An underscore never is part of an identifier token, so the long names of the tags that
  contain one, although they are in the table, are never recognised; \<open>{device_id}\<close> for instance
  is a syntax error.
\<close>

theorem underscore_alias_unreachable:
  "fst (nextToken is) \<notin> {''message_type'', ''message_flags'', ''user_data'', ''device_id'',
     ''monotonic_timer_rx'', ''monotonic_timer_tx'', ''deviceid_last_updated''}"
  "parse msg ''{device_id}'' = Inl (UnexpectedToken ''device'' TagOrClose)"
proof -
  have u: "\<not> is_alnum (CHR ''_'')" by (simp add: char_classes)
  show "fst (nextToken is) \<notin> {''message_type'', ''message_flags'', ''user_data'', ''device_id'',
     ''monotonic_timer_rx'', ''monotonic_timer_tx'', ''deviceid_last_updated''}"
    using nextToken_cases [OF surjective_pairing [of "nextToken is"]] u by (elim disjE) (auto simp: list_all_iff)
  have "nextToken ''device_id}'' = (''device'', ''_id}'')" "nextToken ''_id}'' = (''_'', ''id}'')"
    "add_tagged ''device'' [] m = Inl (UnexpectedToken ''device'' TagOrClose)" for m
    by (simp_all add: nextToken_def lex_simps add_tagged_def is_hex_byte_def tagAliases_def)
  then show "parse msg ''{device_id}'' = Inl (UnexpectedToken ''device'' TagOrClose)"
    by (simp add: parse_def nextToken_mark parse_items.simps parse_tag_args_def)
qed

section \<open>The header macro\<close>

lemma nextToken_open:
  assumes "nextToken is = (''('', is')"
  shows "\<exists>c r. is = c # r \<and> \<not> is_alnum c"
proof (cases "is")
  case Nil
  then show ?thesis using assms by (simp add: nextToken_def)
next
  case (Cons c r)
  have "\<not> is_alnum c"
  proof
    assume a: "is_alnum c"
    then have "fst (nextToken is) = c # takeWhile is_alnum r"
      using Cons alnum_not_blank [OF a] by (simp add: nextToken_def skip_blanks_stop)
    then have "c = CHR ''(''" using assms by simp
    then show False using a by (simp add: char_classes)
  qed
  then show ?thesis using Cons by blast
qed

lemmas value_evals = parse_tag_args_def nextToken_def parse_values.simps parse_value_def is_hex_byte_def
  hex_byte_value_def xdigit_value_def upper_x

lemma header_expansion:
  assumes "\<not> is_alnum c"
  shows "parse_tag_args (''('' @ [CHR 0x22] @ ''NHA1'' @ [CHR 0x22] @ '') v(0x00 0x00 0x00 0x01) t(0x01) f'' @ c # r) =
      Inr ([0x4e, 0x48, 0x41, 0x31], ''v'', ''(0x00 0x00 0x00 0x01) t(0x01) f'' @ c # r)"
    "parse_tag_args (''(0x00 0x00 0x00 0x01) t(0x01) f'' @ c # r) = Inr ([0, 0, 0, 1], ''t'', ''(0x01) f'' @ c # r)"
    "parse_tag_args (''(0x01) f'' @ c # r) = Inr ([1], ''f'', c # r)"
  using assms by (simp_all add: value_evals lex_simps)

text \<open>
  C22: the macro \<open>H(flags)\<close> stands for \<open>m("NHA1") v(0x00 0x00 0x00 0x01) t(0x01) f(flags)\<close>, as
  the help text says: parsing goes on in the same way after either of them.
\<close>

theorem header_macro:
  assumes "parse_tag_args is = Inr (flags, token', is')" and "flags \<noteq> []"
  shows "parse_items msg ''H'' is =
    parse_items msg ''m'' (''('' @ [CHR 0x22] @ ''NHA1'' @ [CHR 0x22] @ '') v(0x00 0x00 0x00 0x01) t(0x01) f'' @ is)"
proof -
  obtain s1 where "nextToken is = (''('', s1)"
    using assms by (auto simp: parse_tag_args_def split: prod.splits if_splits)
  then obtain c r where c: "is = c # r" "\<not> is_alnum c" using nextToken_open by blast
  note e = header_expansion [OF c(2), of r, folded c(1)]
  have l: "add_tagged ''H'' flags msg = Inr (Message_add \<lparr>tlv_tag = 3, tlv_value = flags\<rparr>
             (Message_add \<lparr>tlv_tag = 2, tlv_value = [1]\<rparr>
             (Message_add \<lparr>tlv_tag = 1, tlv_value = [0, 0, 0, 1]\<rparr>
             (Message_add \<lparr>tlv_tag = 0, tlv_value = [0x4e, 0x48, 0x41, 0x31]\<rparr> msg))))"
    using assms(2) by (simp add: add_tagged_def)
  have t: "add_tagged ''m'' a m = Inr (Message_add \<lparr>tlv_tag = 0, tlv_value = a\<rparr> m)"
    "add_tagged ''v'' a m = Inr (Message_add \<lparr>tlv_tag = 1, tlv_value = a\<rparr> m)"
    "add_tagged ''t'' a m = Inr (Message_add \<lparr>tlv_tag = 2, tlv_value = a\<rparr> m)"
    "add_tagged ''f'' a m = Inr (Message_add \<lparr>tlv_tag = 3, tlv_value = a\<rparr> m)" for a m
    by (simp_all add: add_tagged_def is_hex_byte_def tagAliases_def)
  have "parse_items msg ''H'' is = parse_items (Message_add \<lparr>tlv_tag = 3, tlv_value = flags\<rparr>
             (Message_add \<lparr>tlv_tag = 2, tlv_value = [1]\<rparr>
             (Message_add \<lparr>tlv_tag = 1, tlv_value = [0, 0, 0, 1]\<rparr>
             (Message_add \<lparr>tlv_tag = 0, tlv_value = [0x4e, 0x48, 0x41, 0x31]\<rparr> msg)))) token' is'"
    using assms(1) l by (simp add: parse_items.simps [of msg "''H''"])
  also have "\<dots> = parse_items msg ''m'' (''('' @ [CHR 0x22] @ ''NHA1'' @ [CHR 0x22] @ '') v(0x00 0x00 0x00 0x01) t(0x01) f'' @ is)"
    using e assms(1) t
    by (simp add: parse_items.simps [of _ "''m''"] parse_items.simps [of _ "''v''"] parse_items.simps [of _ "''t''"]
        parse_items.simps [of _ "''f''"])
  finally show ?thesis .
qed

theorem header_macro_witness:
  "parse_items (message_of []) ''H'' ''( 0x02) d}'' =
    parse_items (message_of []) ''m'' (''('' @ [CHR 0x22] @ ''NHA1'' @ [CHR 0x22] @ '') v(0x00 0x00 0x00 0x01) t(0x01) f'' @ ''( 0x02) d}'')"
  by (rule header_macro [of _ "[2]" "''d''" "''}''"]) (simp_all add: value_evals lex_simps)

end
