(* ===== verification/Nhac_ClientProps.thy ===== *)
theory Nhac_ClientProps
  imports Nhac_Client Nhac_ParserProps
begin

text \<open>
  Correctness of the connection of the client, under the documented behaviour of \<open>send\<close> and
  \<open>recv\<close>: what is sent is the query, what is received is the answer, and every access stays in
  the buffer as long as the size field of the answer is honest. Two answers that make the
  client leave its buffer are exhibited.
\<close>

section \<open>The contract of the system calls\<close>

definition send_ok :: "'w client_os \<Rightarrow> bool" where
  "send_ok os \<longleftrightarrow> (\<forall>w fd q k w'. cl_send os w fd q = (Some k, w') \<longrightarrow> k \<le> length q \<and> (q \<noteq> [] \<longrightarrow> 0 < k))"

definition recv_ok :: "'w client_os \<Rightarrow> bool" where
  "recv_ok os \<longleftrightarrow> (\<forall>w fd n b w'. cl_recv os w fd n = (Some b, w') \<longrightarrow> length b \<le> n)"

lemma send_okD: "send_ok os \<Longrightarrow> cl_send os w fd q = (Some k, w') \<Longrightarrow> k \<le> length q \<and> (q \<noteq> [] \<longrightarrow> 0 < k)"
  unfolding send_ok_def by blast

lemma recv_okD: "recv_ok os \<Longrightarrow> cl_recv os w fd n = (Some b, w') \<Longrightarrow> length b \<le> n"
  unfolding recv_ok_def by blast

lemma client_updates [simp]:
  "cl_trace (log_event e c) = cl_trace c @ [e]" "cl_world (log_event e c) = cl_world c"
  "cl_trace (write_out s c) = cl_trace c" "cl_world (write_out s c) = cl_world c"
  by (simp_all add: log_event_def write_out_def)

section \<open>Connecting\<close>

text \<open>
  Exact effect of \<open>connectToNha\<close> on every branch. The address list is freed before
  \<open>connect\<close> reads the address in it, so that whether and where the client connects is what the
  freed memory holds; and a socket whose connection fails is not closed.
\<close>

theorem connectToNha_uses_freed_address:
  assumes "connectToNha os ip port c = Some (r, c')"
  shows "\<exists>es. cl_trace c' = cl_trace c @ es \<and>
    (case r of
       Inr fd \<Rightarrow> es = [AddrObtained, AddrFreed, SockOpened fd, AddrUsed] \<and>
         (\<exists>w ai_addr addr k. cl_freed os w ai_addr = Some addr \<and> cl_connect os w fd addr = (k, cl_world c') \<and> k \<noteq> - 1)
     | Inl ConnectFailed \<Rightarrow> \<exists>fd. es = [AddrObtained, AddrFreed, SockOpened fd, AddrUsed]
     | Inl SocketFailed \<Rightarrow> es = [AddrObtained, AddrFreed]
     | Inl (GetaddrinfoFailed e) \<Rightarrow> es = [] \<and> e \<noteq> 0
     | Inl _ \<Rightarrow> False)"
  using assms by (fastforce simp: connectToNha_def Let_def split: prod.splits if_splits option.splits)

section \<open>Sending\<close>

lemma sendQuery_sends:
  assumes "send_ok os"
  shows "\<exists>r c' chunks. sendQuery os fd t c = Some (r, c') \<and> cl_trace c' = cl_trace c @ map (Wrote fd) chunks \<and>
    (\<exists>rest. t = concat chunks @ rest \<and> (r = Inr () \<longrightarrow> rest = []))"
proof (induction "length t" arbitrary: t c rule: less_induct)
  case less
  obtain res w where s: "cl_send os (cl_world c) fd t = (res, w)" by fastforce
  show ?case
  proof (cases res)
    case None
    then have "sendQuery os fd t c = Some (Inl SendFailed, c\<lparr>cl_world := w\<rparr>)"
      using s by (subst sendQuery.simps) simp
    then show ?thesis by (intro exI [of _ "Inl SendFailed"] exI [of _ "c\<lparr>cl_world := w\<rparr>"] exI [of _ "[]"]) simp
  next
    case (Some k)
    let ?c = "log_event (Wrote fd (take k t)) (c\<lparr>cl_world := w\<rparr>)"
    have k: "k \<le> length t" "t \<noteq> [] \<longrightarrow> 0 < k" using send_okD [OF assms s [unfolded Some]] by auto
    show ?thesis
    proof (cases "k = length t")
      case True
      then have "sendQuery os fd t c = Some (Inr (), ?c)" using s Some by (subst sendQuery.simps) simp
      then show ?thesis using True by (intro exI [of _ "Inr ()"] exI [of _ ?c] exI [of _ "[t]"]) simp
    next
      case False
      then have "length (drop k t) < length t" using k by auto
      from less [OF this, of ?c] obtain r c' chunks rest where ih:
        "sendQuery os fd (drop k t) ?c = Some (r, c')" "cl_trace c' = cl_trace ?c @ map (Wrote fd) chunks"
        "drop k t = concat chunks @ rest" "r = Inr () \<longrightarrow> rest = []" by blast
      have "sendQuery os fd t c = Some (r, c')" using s Some False ih(1) by (subst sendQuery.simps) simp
      moreover have "t = concat (take k t # chunks) @ rest" using ih(3) by (metis append_assoc append_take_drop_id concat.simps(2))
      ultimately show ?thesis using ih(2,4) by (intro exI [of _ r] exI [of _ c'] exI [of _ "take k t # chunks"]) auto
    qed
  qed
qed

text \<open>
  C19: sending ends, whatever the sizes of the pieces that \<open>send\<close> accepts, and when it succeeds
  the pieces make up the query in the right order; after an error they are a prefix of it.
\<close>

theorem sendQuery_complete:
  assumes "send_ok os"
  shows "\<exists>r c' chunks. sendQuery os fd t c = Some (r, c') \<and> cl_trace c' = cl_trace c @ map (Wrote fd) chunks \<and>
    (\<exists>rest. t = concat chunks @ rest \<and> (r = Inr () \<longrightarrow> rest = []))"
  by (rule sendQuery_sends [OF assms])

section \<open>Receiving\<close>

lemma recv_into_spec:
  assumes "recv_ok os" and "pos + unat n \<le> length buf" and "cl_recv os (cl_world c) fd (unat n) = (res, w)"
  shows "recv_into os fd pos n buf c = Some (case res of
      None \<Rightarrow> (None, buf, c\<lparr>cl_world := w\<rparr>)
    | Some b \<Rightarrow> (Some b, take pos buf @ b @ drop (pos + length b) buf, log_event (Read fd b) (c\<lparr>cl_world := w\<rparr>)))"
proof (cases res)
  case None
  then show ?thesis using assms(3) by (simp add: recv_into_def)
next
  case (Some b)
  then have "length b \<le> unat n" using recv_okD [OF assms(1)] assms(3) by blast
  then show ?thesis using assms(2,3) Some by (simp add: recv_into_def wr_bytes_in)
qed

definition received :: "int \<Rightarrow> 'w client \<Rightarrow> bytes list \<Rightarrow> 'w client \<Rightarrow> bool" where
  "received fd c chunks c' \<longleftrightarrow> cl_trace c' = cl_trace c @ map (Read fd) chunks"

lemma recv_rest_spec:
  assumes ok: "recv_ok os" and "pos + unat n \<le> length buf"
  shows "\<exists>r c' chunks. recv_rest os fd pos n buf c = Some (r, c') \<and> received fd c chunks c' \<and>
    (\<forall>buf'. r = Inr buf' \<longrightarrow> length (concat chunks) = unat n \<and>
       buf' = take pos buf @ concat chunks @ drop (pos + unat n) buf)"
  using assms(2)
proof (induction "unat n" arbitrary: pos n buf c rule: less_induct)
  case less
  obtain res w where rv: "cl_recv os (cl_world c) fd (unat n) = (res, w)" by fastforce
  note into = recv_into_spec [OF ok less.prems rv]
  let ?c = "c\<lparr>cl_world := w\<rparr>"
  show ?case
  proof (cases res)
    case None
    then have "recv_rest os fd pos n buf c = Some (Inl RecvFailed, ?c)"
      using into by (subst recv_rest.simps) simp
    then show ?thesis by (intro exI [of _ "Inl RecvFailed"] exI [of _ ?c] exI [of _ "[]"]) (simp add: received_def)
  next
    case (Some b)
    let ?cb = "log_event (Read fd b) ?c" and ?buf = "take pos buf @ b @ drop (pos + length b) buf"
    have le: "length b \<le> unat n" using recv_okD [OF ok] rv Some by blast
    then have ub: "unat (of_nat (length b) :: u64) = length b"
      using unat_u64_less [of n] by (simp add: unat_of_nat)
    have step: "recv_rest os fd pos n buf c =
        (if b = [] then Some (Inl ConnectionClosed, ?cb) else if of_nat (length b) = n then Some (Inr ?buf, ?cb)
         else recv_rest os fd (pos + length b) (n - of_nat (length b)) ?buf ?cb)"
      using into Some by (subst recv_rest.simps) simp
    consider "b = []" | "b \<noteq> []" "of_nat (length b) = n" | "b \<noteq> []" "of_nat (length b) \<noteq> n" by blast
    then show ?thesis
    proof cases
      case 1
      then show ?thesis using step
        by (intro exI [of _ "Inl ConnectionClosed"] exI [of _ ?cb] exI [of _ "[b]"]) (simp add: received_def)
    next
      case 2
      then have "unat n = length b" using ub by auto
      then show ?thesis using step 2
        by (intro exI [of _ "Inr ?buf"] exI [of _ ?cb] exI [of _ "[b]"]) (simp add: received_def)
    next
      case 3
      let ?n = "n - of_nat (length b) :: u64"
      have un: "unat ?n = unat n - length b" using le ub by (simp add: unat_sub word_le_nat_alt)
      have lt: "unat ?n < unat n" using 3(1) le un by (cases b) auto
      have "pos + length b + unat ?n \<le> length ?buf" using le un less.prems by simp
      from less.hyps [OF lt this, of ?cb] obtain r c' chunks where ih:
        "recv_rest os fd (pos + length b) ?n ?buf ?cb = Some (r, c')" "received fd ?cb chunks c'"
        "\<And>buf'. r = Inr buf' \<Longrightarrow> length (concat chunks) = unat ?n \<and>
           buf' = take (pos + length b) ?buf @ concat chunks @ drop (pos + length b + unat ?n) ?buf" by blast
      have "recv_rest os fd pos n buf c = Some (r, c')" using step 3 ih(1) by simp
      moreover have "received fd c (b # chunks) c'" using ih(2) by (simp add: received_def)
      ultimately show ?thesis using ih(3) un le less.prems
        by (intro exI [of _ r] exI [of _ c'] exI [of _ "b # chunks"]) (auto simp: add.commute)
    qed
  qed
qed

text \<open>The size field at the front of the buffer, and the number of bytes that are read after it.\<close>

definition announced :: "bytes \<Rightarrow> nat" where
  "announced buf = unat (nhac_fromLE32 (take 4 buf))"

text \<open>The next four bytes on the connection are a size field of at least 4.\<close>

definition honest_size :: "'w client_os \<Rightarrow> int \<Rightarrow> 'w client \<Rightarrow> bool" where
  "honest_size os fd c \<longleftrightarrow>
     (case cl_recv os (cl_world c) fd 4 of (Some szb, _) \<Rightarrow> length szb = 4 \<longrightarrow> 4 \<le> unat (nhac_fromLE32 szb) | _ \<Rightarrow> True)"

lemma receiveResponse_spec:
  assumes ok: "recv_ok os" and "unat n \<le> length buf" and "4 \<le> unat n"
    and honest: "honest_size os fd c"
  shows "\<exists>r c' chunks. receiveResponse os fd buf n c = Some (r, c') \<and> received fd c chunks c' \<and>
    (\<forall>buf' sz. r = Inr (buf', sz) \<longrightarrow> unat sz = announced buf' \<and> length (concat chunks) = min (unat n) (unat sz) \<and>
       buf' = concat chunks @ drop (min (unat n) (unat sz)) buf)"
proof -
  obtain res w where rv: "cl_recv os (cl_world c) fd (unat (4 :: u64)) = (res, w)" by fastforce
  have "0 + unat (4 :: u64) \<le> length buf" using assms(2,3) by simp
  note into = recv_into_spec [OF ok this rv]
  let ?c = "c\<lparr>cl_world := w\<rparr>"
  consider "res = None" | b where "res = Some b" "length b \<noteq> 4" | b where "res = Some b" "length b = 4" by (cases res) auto
  then show ?thesis
  proof cases
    case 1
    then have "receiveResponse os fd buf n c = Some (Inl RecvFailed, ?c)" using into by (simp add: receiveResponse_def)
    then show ?thesis by (intro exI [of _ "Inl RecvFailed"] exI [of _ ?c] exI [of _ "[]"]) (simp add: received_def)
  next
    case 2
    let ?cb = "log_event (Read fd b) ?c"
    have "receiveResponse os fd buf n c = Some (Inl SizeNotReceived, ?cb)" using into 2 by (simp add: receiveResponse_def)
    then show ?thesis by (intro exI [of _ "Inl SizeNotReceived"] exI [of _ ?cb] exI [of _ "[b]"]) (simp add: received_def)
  next
    case (3 b)
    let ?cb = "log_event (Read fd b) ?c" and ?buf = "b @ drop 4 buf" and ?sz = "ucast (nhac_fromLE32 b) :: u64"
    let ?m = "min n ?sz - 4"
    have usz: "unat ?sz = unat (nhac_fromLE32 b)" by (simp add: unat_ucast_up)
    have "4 \<le> unat ?sz" using honest rv 3 usz by (simp add: honest_size_def)
    then have le: "4 \<le> unat (min n ?sz)" using assms(3) by (simp add: min_def)
    then have um: "unat ?m = unat (min n ?sz) - 4" by (simp add: unat_sub word_le_nat_alt)
    have mn: "unat (min n ?sz) = min (unat n) (unat ?sz)" by (simp add: min_def word_le_nat_alt)
    have "4 + unat ?m \<le> length ?buf" using um le mn assms(2) 3 by simp
    from recv_rest_spec [OF ok this, of fd ?cb] obtain r c' chunks where rest:
      "recv_rest os fd 4 ?m ?buf ?cb = Some (r, c')" "received fd ?cb chunks c'"
      "\<And>buf'. r = Inr buf' \<Longrightarrow> length (concat chunks) = unat ?m \<and>
         buf' = take 4 ?buf @ concat chunks @ drop (4 + unat ?m) ?buf" by blast
    have run: "receiveResponse os fd buf n c = Some (case r of Inl e \<Rightarrow> Inl e | Inr buf' \<Rightarrow> Inr (buf', ?sz), c')"
      using into 3 rest(1) by (simp add: receiveResponse_def Let_def split: sum.split)
    have rc: "received fd c (b # chunks) c'" using rest(2) by (simp add: received_def)
    show ?thesis
    proof (cases r)
      case (Inl e)
      then show ?thesis using run rc
        by (intro exI [of _ "Inl e"] exI [of _ c'] exI [of _ "b # chunks"]) simp
    next
      case (Inr buf')
      note post = rest(3) [OF Inr]
      have "unat ?sz = announced buf'" using post 3 usz by (simp add: announced_def)
      moreover have len: "length (concat (b # chunks)) = min (unat n) (unat ?sz)" using post 3 um le mn by simp
      moreover have "buf' = concat (b # chunks) @ drop (min (unat n) (unat ?sz)) buf"
        using post 3 um le unfolding mn by simp
      ultimately show ?thesis using run rc Inr
        by (intro exI [of _ "Inr (buf', ?sz)"] exI [of _ c'] exI [of _ "b # chunks"]) simp
    qed
  qed
qed

text \<open>
  C15: receiving an answer whose size field is at least 4 ends and stays in the buffer, however
  the stream is cut into pieces; when it succeeds, the buffer starts with exactly the bytes
  that arrived, as many as the size field says, or as fit into the buffer.
\<close>

theorem receiveResponse_exact:
  assumes "recv_ok os" and "unat n \<le> length buf" and "4 \<le> unat n"
    and "honest_size os fd c"
  shows "\<exists>r c' chunks. receiveResponse os fd buf n c = Some (r, c') \<and> cl_trace c' = cl_trace c @ map (Read fd) chunks \<and>
    (\<forall>buf' sz. r = Inr (buf', sz) \<longrightarrow> unat sz = announced buf' \<and> length (concat chunks) = min (unat n) (unat sz) \<and>
       buf' = concat chunks @ drop (min (unat n) (unat sz)) buf)"
  using receiveResponse_spec [OF assms] unfolding received_def by blast

section \<open>Dishonest size fields\<close>

text \<open>
  C26: a size field below 4 makes the number of bytes still to be received wrap around to nearly
  \<open>2 ^ 64\<close>, and a further piece that is longer than the rest of the buffer is written behind it.
\<close>

theorem receiveResponse_underflow:
  assumes "cl_recv os (cl_world c) fd 4 = (Some szb, w1)" and "length szb = 4" and "unat (nhac_fromLE32 szb) < 4"
    and "4 \<le> n" and "4 \<le> length buf"
    and "cl_recv os w1 fd (2 ^ 64 - 4 + unat (nhac_fromLE32 szb)) = (Some b, w2)" and "length buf < 4 + length b"
  shows "receiveResponse os fd buf n c = None"
proof -
  let ?sz = "ucast (nhac_fromLE32 szb) :: u64"
  have usz: "unat ?sz = unat (nhac_fromLE32 szb)" by (simp add: unat_ucast_up)
  have mn: "min n ?sz = ?sz" using assms(3,4) usz by (simp add: min_def word_le_nat_alt)
  have "unat (?sz - 4) = 2 ^ 64 - 4 + unat (nhac_fromLE32 szb)"
    using assms(3) usz by (simp add: unat_sub_if_size word_size word_le_nat_alt)
  moreover have "wr_bytes (szb @ drop 4 buf) 4 b = None" using assms(2,5,7) by (intro wr_bytes_out) simp_all
  ultimately have "recv_into os fd 4 (?sz - 4) (szb @ drop 4 buf) c' = None" if "cl_world c' = w1" for c' :: "'a client"
    using that assms(6) by (simp add: recv_into_def)
  then have "recv_rest os fd 4 (?sz - 4) (szb @ drop 4 buf) c' = None" if "cl_world c' = w1" for c' :: "'a client"
    using that by (subst recv_rest.simps) simp
  moreover have "recv_into os fd 0 4 buf c = Some (Some szb, szb @ drop 4 buf, log_event (Read fd szb) (c\<lparr>cl_world := w1\<rparr>))"
    using assms(1,2,5) by (simp add: recv_into_def wr_bytes_in)
  ultimately show ?thesis using assms(2) mn by (simp add: receiveResponse_def Let_def)
qed

text \<open>
  C40: a size field beyond the buffer is handed on to the deserialisation, which then takes it
  for the amount of data available: if the records end in the last sixteen bytes of the
  buffer, the checksum is read from behind it.
\<close>

theorem oversized_answer_overread:
  assumes ok: "recv_ok os" "unat n \<le> length buf" "4 \<le> unat n"
    "honest_size os fd c"
    and run: "receiveResponse os fd buf n c = Some (Inr (buf', sz), c')"
    and big: "length buf' < unat sz" "unat sz \<le> length buf' + 16" "20 \<le> unat sz"
    and recs: "parse_tlvs (drop 4 (take (unat sz - 16) buf')) = Some recs"
  shows "Message_deserialize pico m buf' (unat sz) = None"
proof -
  obtain chunks where an: "unat sz = announced buf'" and ch: "length (concat chunks) = min (unat n) (unat sz)"
      "buf' = concat chunks @ drop (min (unat n) (unat sz)) buf"
    using receiveResponse_spec [OF ok] run by auto
  have "length buf' \<ge> 4" using arg_cong [OF ch(2), of length] ch(1) ok(3) big(3) by simp
  let ?cs = "nhac_fromLE32 (take 4 buf')"
  have cs: "unat ?cs = unat sz" using an by (simp add: announced_def)
  have ep: "unat (?cs - 16) = unat sz - 16" using cs big(3) by (simp add: unat_sub word_le_nat_alt)
  have r4: "rd_bytes buf' 0 4 = Some (take 4 buf')" using \<open>length buf' \<ge> 4\<close> by (simp add: rd_bytes_in)
  have "take (unat sz - 16 - 4) (drop 4 buf') = drop 4 (take (unat sz - 16) buf')" by (simp add: drop_take)
  moreover have "4 \<le> unat sz - 16" "unat sz - 16 \<le> length buf'" using big by linarith+
  ultimately have "deserialize_tlvs ?cs buf' 4 (unat sz - 16) = Some (Inr (map mk_tlv recs, unat sz - 16))"
    using deserialize_tlvs_parse [of 4 "unat sz - 16" buf' ?cs] recs by simp
  moreover have "rd_bytes buf' (unat sz - 16) 16 = None"
    using big rd_bytes_eq_Some [of buf' "unat sz - 16" 16] by (cases "rd_bytes buf' (unat sz - 16) 16") auto
  ultimately show ?thesis using cs ep r4 big(3)
    by (simp add: Message_deserialize_def Let_def word_less_nat_alt)
qed

section \<open>Witnesses\<close>

text \<open>
  A peer that accepts at most ten bytes at a time and answers with the pieces in its list.
\<close>

definition scripted_os :: "bytes list client_os" where
  "scripted_os = \<lparr>
     cl_getaddrinfo = (\<lambda>w ip port. (0, [[2, 0, 4, 210]], w)),
     cl_freed = (\<lambda>w a. Some a),
     cl_socket = (\<lambda>w. (5, w)),
     cl_connect = (\<lambda>w fd a. (0, w)),
     cl_send = (\<lambda>w fd q. (Some (min 10 (length q)), w)),
     cl_recv = (\<lambda>w fd n. case w of [] \<Rightarrow> (Some [], [])
        | b # bs \<Rightarrow> if length b \<le> n then (Some b, bs) else (Some (take n b), drop n b # bs)),
     cl_close = (\<lambda>w fd. w)\<rparr>"

definition scripted :: "bytes list \<Rightarrow> bytes list client" where
  "scripted pieces = \<lparr>cl_world = pieces, cl_trace = [], cl_out = []\<rparr>"

lemma scripted_ok: "send_ok scripted_os" "recv_ok scripted_os"
  by (auto simp: send_ok_def recv_ok_def scripted_os_def split: list.splits if_splits)

theorem connectToNha_uses_freed_address_witness:
  "\<exists>c'. connectToNha scripted_os ''localhost'' ''1234'' (scripted []) = Some (Inr 5, c') \<and>
    cl_trace c' = [AddrObtained, AddrFreed, SockOpened 5, AddrUsed]"
proof -
  obtain c' where run: "connectToNha scripted_os ''localhost'' ''1234'' (scripted []) = Some (Inr 5, c')"
    by (simp add: connectToNha_def scripted_os_def scripted_def)
  from connectToNha_uses_freed_address [OF this] show ?thesis using run by (auto simp: scripted_def)
qed

theorem sendQuery_complete_witness:
  "\<exists>r c' chunks. sendQuery scripted_os 5 (replicate 25 7) (scripted []) = Some (r, c') \<and>
    cl_trace c' = map (Wrote 5) chunks \<and> (\<exists>rest. replicate 25 7 = concat chunks @ rest \<and> (r = Inr () \<longrightarrow> rest = []))"
  using sendQuery_complete [OF scripted_ok(1), of 5 "replicate 25 7" "scripted []"] by (simp add: scripted_def)

lemma scripted_honest: "length b = 4 \<Longrightarrow> 4 \<le> unat (nhac_fromLE32 b) \<Longrightarrow> honest_size scripted_os 5 (scripted (b # bs))"
  by (auto simp: honest_size_def scripted_def scripted_os_def)

theorem receiveResponse_exact_witness:
  "\<exists>r c' chunks. receiveResponse scripted_os 5 (replicate 64 0) 64 (scripted [[23, 0, 0, 0], [0x11, 1], 9 # replicate 16 5]) = Some (r, c') \<and>
    cl_trace c' = cl_trace (scripted [[23, 0, 0, 0], [0x11, 1], 9 # replicate 16 5]) @ map (Read 5) chunks \<and>
    (\<forall>buf' sz. r = Inr (buf', sz) \<longrightarrow> unat sz = announced buf' \<and> length (concat chunks) = min (unat (64 :: u64)) (unat sz) \<and>
       buf' = concat chunks @ drop (min (unat (64 :: u64)) (unat sz)) (replicate 64 0))"
  by (rule receiveResponse_exact [OF scripted_ok(2) _ _ scripted_honest]) (simp_all add: nhac_fromLE32_def)

theorem receiveResponse_underflow_witness:
  "receiveResponse scripted_os 5 (replicate 64 0) 64 (scripted [[0, 0, 0, 0], replicate 100 1]) = None"
  by (rule receiveResponse_underflow [where szb = "[0, 0, 0, 0]" and b = "replicate 100 1" and ?w1.0 = "[replicate 100 1]" and ?w2.0 = "[]"])
    (simp_all add: scripted_def scripted_os_def nhac_fromLE32_def)

theorem oversized_answer_overread_witness:
  "\<exists>buf' sz c'. receiveResponse scripted_os 5 (replicate 24 0) 24 (scripted [[26, 0, 0, 0], replicate 20 0]) = Some (Inr (buf', sz), c') \<and>
    Message_deserialize sample_md5 device_id_query buf' (unat sz) = None"
proof -
  let ?c = "scripted [[26, 0, 0, 0], replicate 20 0]" and ?buf = "[26, 0, 0, 0] @ replicate 20 (0 :: u8)"
  have honest: "honest_size scripted_os 5 ?c" by (rule scripted_honest) (simp_all add: nhac_fromLE32_def)
  have w: "wr_bytes (replicate 24 0) 0 [26, 0, 0, 0] = Some ?buf" "wr_bytes ?buf 4 (replicate 20 0) = Some ?buf"
    by (simp_all add: wr_bytes_in del: wr_bytes.simps)
  have i1: "recv_into scripted_os 5 0 4 (replicate 24 0) ?c = Some (Some [26, 0, 0, 0], ?buf, c1)"
    if "c1 = log_event (Read 5 [26, 0, 0, 0]) (scripted [replicate 20 0])" for c1
    using that w(1) by (simp add: recv_into_def scripted_os_def scripted_def del: wr_bytes.simps)
  have "recv_into scripted_os 5 4 20 ?buf (log_event e (scripted [replicate 20 0])) =
      Some (Some (replicate 20 0), ?buf, log_event (Read 5 (replicate 20 0)) (log_event e (scripted [])))" for e
    using w(2) by (simp add: recv_into_def scripted_os_def scripted_def log_event_def del: wr_bytes.simps)
  then have i2: "recv_rest scripted_os 5 4 20 ?buf (log_event e (scripted [replicate 20 0])) =
      Some (Inr ?buf, log_event (Read 5 (replicate 20 0)) (log_event e (scripted [])))" for e
    by (subst recv_rest.simps) simp
  have sz: "min 24 (ucast (nhac_fromLE32 (take 4 ?buf))) - 4 = (20 :: u64)" "ucast (nhac_fromLE32 (take 4 ?buf)) = (26 :: u64)"
    by (simp_all add: nhac_fromLE32_def)
  obtain c' where run: "receiveResponse scripted_os 5 (replicate 24 0) 24 ?c = Some (Inr (?buf, 26), c')"
    unfolding receiveResponse_def i1 [OF refl] Option.bind.simps prod.case option.case Let_def sz
    using i2 [of "Read 5 [26, 0, 0, 0]"] by simp
  have "drop 4 (take (26 - 16) ?buf) = [0, 0, 0, 0, 0, 0]" by (simp add: take_Cons' numeral_eq_Suc)
  then have p: "parse_tlvs (drop 4 (take (unat (26 :: u64) - 16) ?buf)) = Some [(0, []), (0, []), (0, [])]" by simp
  have "Message_deserialize sample_md5 device_id_query ?buf (unat (26 :: u64)) = None"
    by (rule oversized_answer_overread [OF scripted_ok(2) _ _ honest run _ _ _ p]) simp_all
  with run show ?thesis by blast
qed

end
