(* ===== verification/Nhac_Dialogue.thy ===== *)
theory Nhac_Dialogue
  imports Nhac_ClientProps ResponderProps
begin

unbundle bit_operations_syntax

text \<open>
  The client and the daemon together: the bytes the client sends are a query that the responder
  of the daemon accepts and answers, and the answer is a message that the client reads. The
  network between them is what the system calls on both sides do.
\<close>

section \<open>Queries\<close>

definition header_records :: "u8 \<Rightarrow> tlv_record list" where
  "header_records fl = [(0x00, [0x4e, 0x48, 0x41, 0x31]), (0x01, [0, 0, 0, 1]), (0x02, [1]), (0x03, [fl])]"

lemma header_records_bytes:
  "nhac_toLE32 sz @ body_bytes (map mk_tlv (header_records fl)) = header_bytes sz 1 fl"
  by (simp add: header_bytes_def nhac_toLE32_eq header_records_def body_bytes_def tlv_bytes_def mk_tlv_def)

lemma body_bytes_append: "body_bytes (xs @ ys) = body_bytes xs @ body_bytes ys"
  by (simp add: body_bytes_def)

lemma length_header_records: "length (body_bytes (map mk_tlv (header_records fl))) = 18"
  by (simp add: header_records_def body_bytes_def tlv_bytes_def mk_tlv_def)

text \<open>A message of the client with the header of the interface is a message in the sense of the daemon.\<close>

lemma wire_plain_message:
  assumes "\<And>b. computeMD5 evp b = Some (pico b)"
  shows "plain_message evp fl (body_bytes (map mk_tlv recs)) = Some (wire pico (map mk_tlv (header_records fl @ recs)))"
proof -
  let ?b = "body_bytes (map mk_tlv recs)"
  have "length (body_bytes (map mk_tlv (header_records fl @ recs))) = 18 + length ?b"
    by (simp add: body_bytes_append length_header_records)
  then have "20 + length (body_bytes (map mk_tlv (header_records fl @ recs))) = 38 + length ?b" by simp
  then show ?thesis using header_records_bytes [of "of_nat (38 + length ?b)" fl, symmetric] assms
    by (simp add: plain_message_def wire_def Let_def body_bytes_append del: of_nat_add)
qed

lemma short_query: "\<forall>r \<in> set recs. length (snd r) < 256 \<Longrightarrow> short_values (map mk_tlv (header_records fl @ recs))"
  by (auto simp: short_values_def list_all_iff header_records_def mk_tlv_def)

section \<open>Answers\<close>

definition wanted :: "bool \<Rightarrow> tlv_record \<Rightarrow> tlv_record list" where
  "wanted w r = (if w then [r] else [])"

definition reply_records :: "monotonic_timer \<Rightarrow> reply_env \<Rightarrow> tlv_record list \<Rightarrow> tlv_record list" where
  "reply_records mt env recs =
     wanted (asked recs USER_DATA_QTAG) (USER_DATA_RTAG, user_data recs) @
     wanted (asked recs DEVICEID_QTAG) (DEVICEID_RTAG, TPMWatcher_get (id_watcher env)) @
     wanted (asked recs TIMER_RX_QTAG) (TIMER_RX_RTAG, toLE64 (MonotonicTimer_get mt (rx_tsc env))) @
     wanted (asked recs TIMER_TX_QTAG) (TIMER_TX_RTAG, toLE64 (MonotonicTimer_get mt (tx_tsc env))) @
     wanted (asked recs DEVICEID_LAST_UPDATED_QTAG)
       (DEVICEID_LAST_UPDATED_RTAG, toLE64 (TPMWatcher_getLastUpdated (stamp_watcher env)))"

lemma tlv_wanted: "tlv w t v = body_bytes (map mk_tlv (wanted w (t, v)))"
  by (simp add: tlv_def wanted_def body_bytes_def tlv_bytes_def mk_tlv_def)

lemma reply_body_records: "reply_body mt env recs = body_bytes (map mk_tlv (reply_records mt env recs))"
  by (simp add: reply_body_def reply_records_def body_bytes_append tlv_wanted)

lemma short_reply:
  assumes "watcher_inv (id_watcher env)" and "acceptable maxR recs" and "\<forall>r \<in> set recs. length (snd r) < 256"
  shows "\<forall>r \<in> set (reply_records mt env recs). length (snd r) < 256"
  using user_data_length [OF assms(2,3)] watcher_id.get_id_length [OF assms(1)]
  by (auto simp: reply_records_def wanted_def deviceIDLength_def)

lemma parse_records: "\<forall>r \<in> set recs. length (snd r) < 256 \<Longrightarrow> parse_tlvs (body_bytes (map mk_tlv recs)) = Some recs"
proof -
  assume "\<forall>r \<in> set recs. length (snd r) < 256"
  then have "short_values (map mk_tlv recs)" by (auto simp: short_values_def list_all_iff mk_tlv_def)
  moreover have "map (\<lambda>t. (tlv_tag t, tlv_value t)) (map mk_tlv recs) = recs" by (induction recs) (auto simp: mk_tlv_def)
  ultimately show ?thesis using parse_body_bytes by metis
qed

lemma xor_nth: "length xs = 16 \<Longrightarrow> length ys = 16 \<Longrightarrow> map (\<lambda>i. xs ! i XOR ys ! i) [0..<16] = map2 (XOR) xs (ys :: bytes)"
  by (rule nth_equalityI) simp_all

lemma sealed_size:
  assumes "sealed evp devID fl body = Some m" and "length devID = 16" and "length m < 2 ^ 32"
  shows "length m = unat (nhac_fromLE32 (take 4 m))"
proof -
  obtain chk where m: "m = header_bytes (of_nat (length m)) 1 fl @ chk" using sealed_SomeD [OF assms(1,2)] by blast
  have "take 4 m = nhac_toLE32 (of_nat (length m))"
    using nhac_le32.enc_length by (subst m) (simp add: header_bytes_def nhac_toLE32_eq)
  then show ?thesis using unat_of_nat_lt32 [OF assms(3)] by (simp add: nhac_le32.dec_enc)
qed

text \<open>The client reads a sealed answer, and its XOR of the checksums is the mask.\<close>

lemma Message_deserialize_sealed:
  assumes md5: "\<And>b. computeMD5 evp b = Some (pico b)" and "length devID = 16"
    and m: "sealed evp devID fl (body_bytes (map mk_tlv recs)) = Some m" and "length m < 2 ^ 32"
    and short: "\<forall>r \<in> set recs. length (snd r) < 256"
  shows "\<exists>msg'. Message_deserialize pico msg (m @ xs) (length m) = Some (Inr (msg', length m)) \<and>
    tlvs msg' = map mk_tlv (header_records fl @ recs) \<and>
    xoredMd5 msg' = Some (if fl = 1 then devID else replicate 16 0)"
proof -
  let ?b = "body_bytes (map mk_tlv recs)" and ?h = "header_bytes (of_nat (length m)) 1 fl"
  obtain md where mm: "m = ?h @ ?b @ (if fl = 1 then map2 (XOR) md devID else md)"
    and lm: "length m = 38 + length ?b" and c: "computeMD5 evp (take (length m - 16) m) = Some md" and l: "length md = 16"
    using sealed_SomeD [OF m assms(2)] by blast
  let ?chk = "if fl = 1 then map2 (XOR) md devID else md"
  have lc: "length ?chk = 16" using l assms(2) by simp
  define h where "h = ?h"
  have m3: "m = h @ ?b @ ?chk" using mm unfolding h_def .
  have lh: "length m - 16 = length (h @ ?b)" using lm by (simp add: h_def)
  have t: "take (length m - 16) m = ?h @ ?b" unfolding lh h_def [symmetric] by (subst m3) simp
  have d: "drop (length m - 16) m = ?chk" unfolding lh by (subst m3) simp
  have pm: "pico (?h @ ?b) = md" using md5 c t by simp
  have sz: "length m = unat (nhac_fromLE32 (take 4 (m @ xs)))"
    using sealed_size [OF m assms(2,4)] lm by simp
  have "drop 4 (?h @ ?b) = body_bytes (map mk_tlv (header_records fl @ recs))"
    unfolding header_records_bytes [symmetric] using nhac_le32.enc_length by (simp add: body_bytes_append)
  then have p: "parse_tlvs (drop 4 (?h @ ?b)) = Some (header_records fl @ recs)"
    using parse_records [of "header_records fl @ recs"] short by (simp add: header_records_def)
  have parts: "take (length m - 16) (m @ xs) = ?h @ ?b" "take 16 (drop (length m - 16) (m @ xs)) = ?chk"
    using t d lc lm by simp_all
  have x: "map (\<lambda>i. ?chk ! i XOR md ! i) [0..<16] = (if fl = 1 then devID else replicate 16 0)"
    unfolding xor_nth [OF lc l] using map2_xor_cancel [of md devID] l assms(2) by simp
  have "20 \<le> length m \<and> length m \<le> length m" "length m \<le> length (m @ xs)" using lm by simp_all
  then show ?thesis
    using Message_deserialize_spec [OF _ sz, of "length m" pico msg] unfolding parts p pm Let_def x by simp
qed

section \<open>The connection between the two\<close>

text \<open>
  The bytes \<open>m\<close> are what the client will receive on a connection, in whatever pieces: every
  \<open>recv\<close> that has room delivers a non-empty piece of the front of what is left.
\<close>

inductive delivers :: "'w client_os \<Rightarrow> int \<Rightarrow> 'w \<Rightarrow> bytes \<Rightarrow> bool" for os fd where
  drained: "delivers os fd w []"
| piece: "\<forall>n > 0. cl_recv os w fd n = (Some (b n), w' n) \<and> b n \<noteq> [] \<and> length (b n) \<le> n \<and>
      m = b n @ m' n \<and> delivers os fd (w' n) (m' n) \<Longrightarrow> delivers os fd w m"

text \<open>
  From the world \<open>w\<close> of the client the query can be sent completely, and then the answer is
  delivered, its size field in one piece, which the client insists on.
\<close>

definition round_trip :: "'w client_os \<Rightarrow> int \<Rightarrow> 'w \<Rightarrow> bytes \<Rightarrow> bytes \<Rightarrow> bool" where
  "round_trip os fd w q m \<longleftrightarrow> (\<forall>c. cl_world c = w \<longrightarrow> (\<exists>c'. sendQuery os fd q c = Some (Inr (), c') \<and>
     delivers os fd (cl_world c') m \<and>
     (\<exists>b w'. cl_recv os (cl_world c') fd 4 = (Some b, w') \<and> length b = 4)))"

lemma sendQuery_out:
  assumes "sendQuery os fd t c = Some (r, c')"
  shows "cl_out c' = cl_out c"
proof -
  have "cl_out (snd (r, c')) = cl_out c"
  proof (rule sendQuery.raw_induct [where P = "\<lambda>os fd t c rc. cl_out (snd rc) = cl_out c", OF _ assms])
    fix send :: "'a client_os \<Rightarrow> int \<Rightarrow> bytes \<Rightarrow> 'a client \<Rightarrow> ('a, unit) client_result" and os fd t c rc
    assume ih: "\<And>os fd t c rc. send os fd t c = Some rc \<Longrightarrow> cl_out (snd rc) = cl_out c"
      and body: "(case cl_send os (cl_world c) fd t of (res, w) \<Rightarrow> let c = c\<lparr>cl_world := w\<rparr> in
        case res of None \<Rightarrow> Some (Inl SendFailed, c)
        | Some k \<Rightarrow> let c = log_event (Wrote fd (take k t)) c in
            if k \<noteq> length t then send os fd (drop k t) c else Some (Inr (), c)) = Some rc"
    show "cl_out (snd rc) = cl_out c"
      using body by (auto simp: Let_def log_event_def split: prod.splits option.splits if_splits dest!: ih)
  qed
  then show ?thesis by simp
qed

lemma delivers_piece:
  assumes "delivers os fd w m" and "m \<noteq> []" and "0 < n"
  obtains b w' m' where "cl_recv os w fd n = (Some b, w')" "b \<noteq> []" "length b \<le> n" "m = b @ m'" "delivers os fd w' m'"
  using assms by (auto elim!: delivers.cases)

lemma recv_rest_delivers:
  assumes "delivers os fd (cl_world c) m" and "m \<noteq> []" and "unat n = length m" and "pos + length m \<le> length buf"
  shows "\<exists>c'. recv_rest os fd pos n buf c = Some (Inr (take pos buf @ m @ drop (pos + length m) buf), c') \<and> cl_out c' = cl_out c"
  using assms
proof (induction "length m" arbitrary: m n pos buf c rule: less_induct)
  case less
  have "0 < unat n" using less.prems(2,3) by simp
  from delivers_piece [OF less.prems(1,2) this] obtain b w' m' where
    r: "cl_recv os (cl_world c) fd (unat n) = (Some b, w')" and b: "b \<noteq> []" "length b \<le> unat n" "m = b @ m'"
    and d: "delivers os fd w' m'" .
  let ?c = "log_event (Read fd b) (c\<lparr>cl_world := w'\<rparr>)" and ?buf = "take pos buf @ b @ drop (pos + length b) buf"
  have "wr_bytes buf pos b = Some ?buf" using less.prems(4) b(3) by (intro wr_bytes_in) simp
  then have into: "recv_into os fd pos n buf c = Some (Some b, ?buf, ?c)" using r by (simp add: recv_into_def)
  have ub: "unat (of_nat (length b) :: u64) = length b"
    using b(2) unat_u64_less [of n] by (simp add: unat_of_nat)
  show ?case
  proof (cases "m' = []")
    case True
    then have "of_nat (length b) = n" using less.prems(3) b(3) ub by (simp add: word_unat_eq_iff)
    then show ?thesis using into b(1,3) True by (subst recv_rest.simps) (simp add: log_event_def)
  next
    case False
    then have ne: "of_nat (length b) \<noteq> n" using less.prems(3) b(3) ub by auto
    have un: "unat (n - of_nat (length b) :: u64) = length m'"
      using less.prems(3) b(2,3) ub by (simp add: unat_sub word_le_nat_alt)
    have lt: "length m' < length m" using b(1,3) by simp
    have "pos + length b + length m' \<le> length ?buf" using less.prems(4) b(3) by simp
    from less.hyps [OF lt _ False un this, of ?c] d obtain c' where
      "recv_rest os fd (pos + length b) (n - of_nat (length b)) ?buf ?c =
        Some (Inr (take (pos + length b) ?buf @ m' @ drop (pos + length b + length m') ?buf), c')" "cl_out c' = cl_out ?c"
      by auto
    then show ?thesis using into b(1,3) ne less.prems(4)
      by (subst recv_rest.simps) (simp add: log_event_def add.commute add.left_commute)
  qed
qed

lemma receive_delivered:
  assumes "delivers os fd (cl_world c) m" and "cl_recv os (cl_world c) fd 4 = (Some b, w')" and "length b = 4"
    and "20 \<le> length m" and "length m = unat (nhac_fromLE32 (take 4 m))"
    and "length m \<le> unat n" and "unat n \<le> length buf"
  shows "\<exists>c'. receiveResponse os fd buf n c = Some (Inr (m @ drop (length m) buf, of_nat (length m)), c') \<and> cl_out c' = cl_out c"
proof -
  let ?sz = "ucast (nhac_fromLE32 (take 4 m)) :: u64"
  have usz: "unat ?sz = length m" using assms(5) by (simp add: unat_ucast_up)
  have eqsz: "?sz = of_nat (length m)" unfolding usz [symmetric] by simp
  have "m \<noteq> []" using assms(4) by auto
  then obtain m' where b: "m = b @ m'" "delivers os fd w' m'"
    using delivers_piece [OF assms(1), of 4] assms(2) by auto
  have t: "take 4 m = b" "m' = drop 4 m" using b(1) assms(3) by simp_all
  let ?c1 = "log_event (Read fd b) (c\<lparr>cl_world := w'\<rparr>)"
  have "?sz \<le> n" using usz assms(6) by (simp add: word_le_nat_alt)
  then have "min n ?sz = ?sz" by (rule min.absorb2)
  then have um: "unat (min n ?sz - 4) = length m'"
    using usz assms(4) t(2) by (simp add: unat_sub word_le_nat_alt)
  have "wr_bytes buf 0 b = Some (b @ drop 4 buf)" using assms(3,4,6,7) wr_bytes_in [of 0 b buf] by simp
  then have into: "recv_into os fd 0 4 buf c = Some (Some b, b @ drop 4 buf, ?c1)"
    using assms(2) by (simp add: recv_into_def)
  have len: "4 + length m' \<le> length (b @ drop 4 buf)" "m' \<noteq> []" using assms(3,4,6,7) t(2) by auto
  obtain c' where c': "recv_rest os fd 4 (min n ?sz - 4) (b @ drop 4 buf) ?c1 =
      Some (Inr (take 4 (b @ drop 4 buf) @ m' @ drop (4 + length m') (b @ drop 4 buf)), c')" "cl_out c' = cl_out ?c1"
    using recv_rest_delivers [of os fd ?c1 m' "min n ?sz - 4" 4 "b @ drop 4 buf"] b(2) len um by auto
  have "take 4 (b @ drop 4 buf) @ m' @ drop (4 + length m') (b @ drop 4 buf) = m @ drop (length m) buf"
    using b(1) assms(3) by (simp add: add.commute)
  then have "receiveResponse os fd buf n c = Some (Inr (m @ drop (length m) buf, ?sz), c')"
    using into c'(1) assms(3) t(1) by (simp add: receiveResponse_def Let_def)
  then show ?thesis unfolding eqsz using c'(2) by (simp add: log_event_def)
qed

section \<open>One exchange\<close>

text \<open>The query on the wire and the answer to it.\<close>

lemma query_answered:
  assumes id: "watcher_inv (id_watcher env)" and md5: "\<And>b. computeMD5 evp b = Some (pico b)"
    and fl: "fl \<in> {0, 2}" and short: "\<forall>r \<in> set recs. length (snd r) < 256"
    and acc: "acceptable maxSizeOfMessage recs" and size: "length (body_bytes (map mk_tlv recs)) \<le> 32730"
  shows "\<exists>m. answer evp mt env maxSizeOfMessage (wire pico (map mk_tlv (header_records fl @ recs))) = Some m \<and>
    sealed evp (TPMWatcher_get (id_watcher env)) (reply_flags fl) (reply_body mt env recs) = Some m \<and>
    length m = reply_total recs"
proof -
  let ?q = "wire pico (map mk_tlv (header_records fl @ recs))" and ?id = "TPMWatcher_get (id_watcher env)"
  note pm = wire_plain_message [OF md5, of fl recs]
  have wf: "well_formed_query evp ?q" by (rule plain_message_well_formed [OF pm size fl])
  have p: "parse_tlvs (drop 22 (take (length ?q - 16) ?q)) = Some recs"
    unfolding plain_messageD(4) [OF pm] by (rule parse_records [OF short])
  obtain m where m: "sealed evp ?id (reply_flags fl) (reply_body mt env recs) = Some m"
    using md5 by (simp add: sealed_def Let_def)
  have "answer evp mt env maxSizeOfMessage ?q = Some m"
    unfolding answer_def p option.case Let_def plain_messageD(6) [OF pm] using wf acc m by simp
  moreover have "length m = reply_total recs"
    using sealed_SomeD [OF m] watcher_id.get_id_length [OF id] length_reply_body [OF id acc] by (auto simp: deviceIDLength_def)
  ultimately show ?thesis using m by blast
qed

text \<open>The responder answers a query that has arrived completely.\<close>

lemma responder_answers:
  assumes "os_ok (\<lambda>e. watcher_inv (id_watcher e)) sos" and "server_inv s"
    and "recv_stream sos sfd maxSizeOfMessage (world s) = (q, RecvError EAGAIN, w1)" and "q \<noteq> []"
    and "os_readings sos w1 = (env, w2)" and "answer evp mt env maxSizeOfMessage q = Some m"
    and "fst (os_send sos w2 sfd m) = int (length m)"
  shows "\<exists>s'. handle_connection sos (createResponse evp mt) sfd s = Some (True, s') \<and>
    trace s' = trace s @ [Query sfd q, Sent sfd m]"
proof -
  have "connection_spec sos (answer evp mt) sfd (world s) = (True, [Query sfd q, Sent sfd m], snd (os_send sos w2 sfd m))"
    using assms(3-7) by (cases "os_send sos w2 sfd m") (simp add: connection_spec_def)
  from mb.connection_refines [OF assms(1,2) this] show ?thesis by blast
qed

lemma exchange_run:
  assumes "Message_serialize pico msg buffer bufferSize = Some (Inr (query, buf1, n))"
    and "sendQuery os fd (take n buf1)
      (if \<not> quiet then write_out (Message_print query (''query_'' @ counterStr counter)) c else c) = Some (Inr (), c2)"
    and "receiveResponse os fd buf1 (of_nat bufferSize) c2 = Some (Inr (buf2, sz), c3)"
    and "Message_deserialize pico query buf2 (unat sz) = Some (Inr (response, k))"
  shows "exchange os pico quiet fd counter msg buffer c =
    Some (Inr (response, buf2), write_out (Message_print response (''response_'' @ counterStr counter)) c3)"
  using assms by (simp add: exchange_def Let_def)

definition masked_id :: "reply_env \<Rightarrow> u8 \<Rightarrow> bytes" where
  "masked_id env fl = (if fl = 2 then TPMWatcher_get (id_watcher env) else replicate 16 0)"

lemma exchange_delivered:
  assumes id: "watcher_inv (id_watcher env)" and md5: "\<And>b. computeMD5 evp b = Some (pico b)"
    and fl: "fl \<in> {0, 2}" and short: "\<forall>r \<in> set recs. length (snd r) < 256"
    and acc: "acceptable maxSizeOfMessage recs" and size: "length (body_bytes (map mk_tlv recs)) \<le> 32730"
    and msg: "tlvs msg = map mk_tlv (header_records fl @ recs)" and buf: "length buffer = bufferSize"
    and m: "sealed evp (TPMWatcher_get (id_watcher env)) (reply_flags fl) (reply_body mt env recs) = Some m"
      "length m = reply_total recs"
    and link: "round_trip os fd (cl_world c) (wire pico (map mk_tlv (header_records fl @ recs))) m"
  shows "\<exists>query response buffer' c'.
    exchange os pico quiet fd counter msg buffer c = Some (Inr (response, buffer'), c') \<and>
    tlvs query = tlvs msg \<and> tlvs response = map mk_tlv (header_records (reply_flags fl) @ reply_records mt env recs) \<and>
    xoredMd5 response = Some (masked_id env fl) \<and>
    cl_out c' = cl_out c @ (if quiet then [] else Message_print query (''query_'' @ counterStr counter)) @
      Message_print response (''response_'' @ counterStr counter)"
proof -
  let ?ts = "map mk_tlv (header_records fl @ recs)"
  let ?q = "wire pico ?ts" and ?id = "TPMWatcher_get (id_watcher env)"
  have pl: "length (pico b) = 16" for b using computeMD5_length md5 by blast
  have lid: "length ?id = 16" using watcher_id.get_id_length [OF id] by (simp add: deviceIDLength_def)
  have lq: "20 + length (body_bytes ?ts) \<le> bufferSize" using size length_header_records by (simp add: body_bytes_append bufferSize_def)
  have lw: "length ?q = 20 + length (body_bytes ?ts)" by (rule length_wire [OF pl])
  let ?query = "msg\<lparr>calculatedMd5 := Some (wire_md5 pico ?ts), receivedMd5 := None, xoredMd5 := None\<rparr>"
  let ?buf = "?q @ drop (length ?q) buffer"
  have ser: "Message_serialize pico msg buffer bufferSize = Some (Inr (?query, ?buf, length ?q))"
    using Message_serialize_spec [of msg pico bufferSize buffer] msg short_query [OF short] pl lq buf lw by (simp add: bufferSize_def)
  have lm: "20 \<le> length m" "length m \<le> bufferSize"
    using m(2) acc by (simp_all add: acceptable_def reply_total_def bufferSize_def maxSizeOfMessage_def)
  then have lm32: "length m < 2 ^ 32" by (simp add: bufferSize_def)
  let ?c1 = "if \<not> quiet then write_out (Message_print ?query (''query_'' @ counterStr counter)) c else c"
  have "cl_world ?c1 = cl_world c" by simp
  then obtain c2 b w' where snd: "sendQuery os fd ?q ?c1 = Some (Inr (), c2)" "delivers os fd (cl_world c2) m"
      "cl_recv os (cl_world c2) fd 4 = (Some b, w')" "length b = 4"
    using link unfolding round_trip_def by blast
  have ub: "unat (of_nat bufferSize :: u64) = bufferSize" by (simp add: bufferSize_def)
  obtain c3 where rcv: "receiveResponse os fd ?buf (of_nat bufferSize) c2 =
      Some (Inr (m @ drop (length m) ?buf, of_nat (length m)), c3)" "cl_out c3 = cl_out c2"
    using receive_delivered [OF snd(2-4) lm(1) sealed_size [OF m(1) lid lm32], of "of_nat bufferSize" ?buf] lm ub buf lq lw by auto
  have um: "unat (of_nat (length m) :: u64) = length m" using lm32 by (simp add: unat_of_nat)
  obtain response where des: "Message_deserialize pico ?query (m @ drop (length m) ?buf) (length m) = Some (Inr (response, length m))"
      "tlvs response = map mk_tlv (header_records (reply_flags fl) @ reply_records mt env recs)"
      "xoredMd5 response = Some (masked_id env fl)"
    using Message_deserialize_sealed [OF md5 lid m(1) [unfolded reply_body_records] lm32 short_reply [OF id acc short], of ?query "drop (length m) ?buf"]
      fl by (auto simp: masked_id_def reply_flags_def)
  let ?c4 = "write_out (Message_print response (''response_'' @ counterStr counter)) c3"
  have run: "exchange os pico quiet fd counter msg buffer c = Some (Inr (response, m @ drop (length m) ?buf), ?c4)"
    by (rule exchange_run [OF ser _ rcv(1)]) (use snd(1) des(1) um in simp_all)
  have out: "cl_out ?c4 = cl_out c @ (if quiet then [] else Message_print ?query (''query_'' @ counterStr counter)) @
      Message_print response (''response_'' @ counterStr counter)" and tq: "tlvs ?query = tlvs msg"
    by (simp_all add: write_out_def rcv sendQuery_out [OF snd(1)])
  show ?thesis
    by (rule exI [of _ ?query], rule exI [of _ response], rule exI [of _ "m @ drop (length m) ?buf"], rule exI [of _ ?c4]) (intro conjI run tq des(2,3) out)
qed

section \<open>What the client prints\<close>

lemma byte_low: "i \<le> 24 \<Longrightarrow> (ucast (drop_bit i (t :: u64)) :: u8) = ucast (drop_bit i (ucast t :: u32))"
  by (rule bit_eqI) (auto simp: bit_simps)

lemma toLE64_halves:
  "take 4 (toLE64 t) = nhac_toLE32 (ucast t)" "take 4 (drop 4 (toLE64 t)) = nhac_toLE32 (ucast (drop_bit 32 t))"
proof -
  have l: "toLE64 t = map (\<lambda>i. ucast (drop_bit i t)) [0, 8, 16, 24, 32, 40, 48, 56]"
    by (simp add: toLE64_def upt_8 ucast_and_ff)
  have h: "nhac_toLE32 x = map (\<lambda>i. ucast (drop_bit i x)) [0, 8, 16, 24]" for x
    by (simp add: nhac_toLE32_def ucast_and_ff)
  show "take 4 (toLE64 t) = nhac_toLE32 (ucast t)"
    using byte_low [of 8 t] byte_low [of 16 t] byte_low [of 24 t] byte_low [of 0 t] by (simp add: l h)
  show "take 4 (drop 4 (toLE64 t)) = nhac_toLE32 (ucast (drop_bit 32 t))"
    using byte_low [of 8 "drop_bit 32 t"] byte_low [of 16 "drop_bit 32 t"] byte_low [of 24 "drop_bit 32 t"]
      byte_low [of 0 "drop_bit 32 t"] by (simp add: l h)
qed

lemma nhac_fromLE32_take: "4 \<le> length v \<Longrightarrow> nhac_fromLE32 (take 4 v) = nhac_fromLE32 v"
  by (simp add: nhac_fromLE32_def)

lemma le64_value_toLE64: "le64_value (toLE64 t) = t"
proof -
  have lo: "nhac_fromLE32 (drop 0 (toLE64 t)) = ucast t"
    using nhac_fromLE32_take [of "toLE64 t"] unfolding toLE64_halves nhac_le32.dec_enc by simp
  have hi: "nhac_fromLE32 (drop 4 (toLE64 t)) = ucast (drop_bit 32 t)"
    using nhac_fromLE32_take [of "drop 4 (toLE64 t)"] unfolding toLE64_halves nhac_le32.dec_enc by simp
  have "le64_value (toLE64 t) = push_bit 32 (ucast (ucast (drop_bit 32 t) :: u32)) OR ucast (ucast t :: u32)"
    unfolding le64_value_def lo hi ..
  also have "\<dots> = t" by (intro bit_eqI) (auto simp: bit_simps)
  finally show ?thesis .
qed

lemma decode_time:
  "TLV_decode (mk_tlv (TIMER_RX_RTAG, toLE64 t)) = ''monotonic_timer_rx '' @ decimal (unat t)"
  "TLV_decode (mk_tlv (TIMER_TX_RTAG, toLE64 t)) = ''monotonic_timer_tx '' @ decimal (unat t)"
  "TLV_decode (mk_tlv (DEVICEID_LAST_UPDATED_RTAG, toLE64 t)) = ''device_id_last_updated '' @ decimal (unat t)"
  by (simp_all add: TLV_decode_def mk_tlv_def le64_value_toLE64)

lemma decode_id: "length v = 16 \<Longrightarrow> TLV_decode (mk_tlv (DEVICEID_RTAG, v)) = ''device_id '' @ hex_bytes v"
  by (simp add: TLV_decode_def mk_tlv_def)

lemma decode_user_data: "v \<noteq> [] \<Longrightarrow> TLV_decode (mk_tlv (USER_DATA_RTAG, v)) = ''user_data_mirrored '' @ hex_bytes v"
  by (simp add: TLV_decode_def mk_tlv_def)

text \<open>
  C12: the client prints what the daemon measured. The explanations under the records of an answer
  are the user data and the device ID in hexadecimal digits and the readings of the time source
  and the time of the last update of the device ID in decimal, for exactly the records that were
  asked for.
\<close>

theorem reply_decoded:
  assumes id: "watcher_inv (id_watcher env)" and acc: "acceptable maxR recs"
  shows "map (\<lambda>r. TLV_decode (mk_tlv r)) (reply_records mt env recs) =
    (if asked recs USER_DATA_QTAG then [''user_data_mirrored '' @ hex_bytes (user_data recs)] else []) @
    (if asked recs DEVICEID_QTAG then [''device_id '' @ hex_bytes (TPMWatcher_get (id_watcher env))] else []) @
    (if asked recs TIMER_RX_QTAG then [''monotonic_timer_rx '' @ decimal (unat (MonotonicTimer_get mt (rx_tsc env)))] else []) @
    (if asked recs TIMER_TX_QTAG then [''monotonic_timer_tx '' @ decimal (unat (MonotonicTimer_get mt (tx_tsc env)))] else []) @
    (if asked recs DEVICEID_LAST_UPDATED_QTAG
     then [''device_id_last_updated '' @ decimal (unat (TPMWatcher_getLastUpdated (stamp_watcher env)))] else [])"
proof -
  have "length (TPMWatcher_get (id_watcher env)) = 16"
    using watcher_id.get_id_length [OF id] by (simp add: deviceIDLength_def)
  note d = decode_id [OF this] decode_time decode_user_data
  have "asked recs USER_DATA_QTAG \<Longrightarrow> user_data recs \<noteq> []" using user_data_asked [OF acc] by simp
  then show ?thesis unfolding reply_records_def wanted_def map_append
    by (intro arg_cong2 [where f = "(@)"]) (simp_all add: d del: USER_DATA_RTAG_def DEVICEID_RTAG_def TIMER_RX_RTAG_def
        TIMER_TX_RTAG_def DEVICEID_LAST_UPDATED_RTAG_def)
qed

theorem reply_decoded_witness:
  "map (\<lambda>r. TLV_decode (mk_tlv r)) (reply_records sample_timer sample_env [(0x91, []), (0x92, [])]) =
    [''device_id '' @ hex_bytes (TPMWatcher_get sample_watcher),
     ''monotonic_timer_rx '' @ decimal (unat (MonotonicTimer_get sample_timer 1000))]"
proof -
  have "acceptable 400 [(0x91, []), (0x92, [])]" by (rule sample_query_facts(5))
  from reply_decoded [OF sample_env_inv this, of sample_timer] show ?thesis by (simp add: asked_def sample_env_def)
qed

end
