(* ===== verification/Spec2Isabelle.thy ===== *)
theory Spec2Isabelle
  imports NHA_Main Nhac_Dialogue
begin

text \<open>
  Verification of the Native Hardware Access daemon and its command line client.

  \<^bold>\<open>The program.\<close> The daemon (\<open>src/src/\<close>) answers queries of other machines over TCP for a device ID
  derived from the TPM and for the time of a monotonic clock. \<open>main\<close> pins the process to one
  core, reads the configuration, constructs the time source and the TPM watcher and runs the
  responder; the responder hands every query to the message builder, which reads the time
  source and the watcher; both are kept up to date by periodic timers with a thread each. The
  client \<open>nhac\<close> (\<open>src/tools/src/nhac.cpp\<close>) turns textual descriptions into queries, sends them
  and prints the answers.

  \<^bold>\<open>Theories and sources.\<close> Definitions keep the names of the source; a method \<open>C::m\<close> is \<open>C_m\<close> where
  \<open>m\<close> alone would be ambiguous.
  \<^item> \<open>NHA_Prelude\<close>: words, checked buffer accesses (\<open>None\<close> is an access outside the buffer), the
    locale \<open>byte_codec\<close> of fixed-width encodings. \<open>CxxString\<close>: character classes and numbers in text.
    \<open>Double\<close>: the IEEE double arithmetic of the time source, with error bounds of the rounding.
  \<^item> \<open>Auxiliary\<close> (\<open>auxiliary.h\<close>): \<open>try_add_unsigned\<close> for every word width.
  \<^item> \<open>Timer\<close> (\<open>timer.cpp\<close>): the owner and the worker thread as step relations over mutex, condition
    variable and join, with the release of the mutex before the callback as a step of its own;
    invariants by rule induction, the calls that are left after \<open>stop\<close>, termination of the join.
  \<^item> \<open>MonotonicTimer\<close> (\<open>monotonictimer.cpp\<close>): constructor, \<open>get\<close>, CPUID and perf access, the periodic
    check; accuracy of the multiplier, monotonicity, detection of deviations, release of resources.
    The exceptions of the constructor are stated in terms of the CPUID bits.
  \<^item> \<open>TPMWatcher\<close> (\<open>tpmwatcher.cpp\<close>): the cached device ID, \<open>update\<close> with all its exits, \<open>start\<close>. That a
    failing \<open>Esys_CreatePrimary\<close> leaves its output pointers null is the hypothesis
    \<open>create_primary_clean\<close>.
  \<^item> \<open>MessageBuilder\<close> (\<open>messagebuilder.cpp\<close>): \<open>createResponse\<close> as it is written, over buffers.
    \<open>MessageBuilderSpec\<close> holds the abstract answer to a query and the record loop,
    \<open>MessageBuilderRefine\<close> the refinement theorem and what the receiver can rely on.
  \<^item> \<open>Responder\<close> (\<open>responder.cpp\<close>): the server over a record of system calls on an unknown world, with
    a history of its input and output. \<open>ResponderProps\<close>: the abstract step of a connection and its
    refinement through the locale \<open>response_builder\<close>, interpreted on \<open>createResponse\<close>; accounting of
    connections, the connection limit, return of every round, shut-down. All bytes received until
    \<open>recv\<close> would block are one query, so that two queries in one go are not answered.
  \<^item> \<open>ConfigurationParser\<close> (\<open>configurationparser.cpp\<close>): loading a file, effect and round trip.
  \<^item> \<open>NHA_Main\<close> (\<open>main.cpp\<close>): pinning, arguments, configuration values, start-up and notifications. The
    checks and updates that the two timer threads make during start-up are part of it.
  \<^item> \<open>Nhac_Message\<close>, \<open>Nhac_Parser\<close>, \<open>Nhac_Client\<close> (\<open>nhac.cpp\<close>): messages and their serialisation,
    deserialisation and printing; the parser of descriptions; connection, exchange and \<open>main\<close>.
    \<open>Nhac_MessageProps\<close>: the accepted messages and the round trip. \<open>Nhac_ParserProps\<close>: round trip of
    descriptions, progress, the header macro. \<open>Nhac_ClientProps\<close>: sending and receiving under the
    documented behaviour of \<open>send\<close> and \<open>recv\<close>, and the answers that make the client leave its buffer.
    \<open>connectToNha\<close> hands an address in freed memory to \<open>connect\<close>: what this memory holds, or that the
    process ends there, is an answer of the operating system (\<open>cl_freed\<close>), and every theorem
    about a connected client is about the runs that get past it.
  \<^item> \<open>Nhac_Dialogue\<close> and this theory: the client and the responder of the daemon together, over any
    system calls on both sides; \<open>round_trip\<close> says that the network carries the bytes.

  \<^bold>\<open>Parameters.\<close> Code outside the repository is an argument: the digests of OpenSSL and picohash, the
  tss2 library, the system calls, the readings of the time stamp counter, \<open>strtod\<close>. What a theorem
  needs of them is a named hypothesis (for instance \<open>os_ok\<close>, \<open>send_ok\<close>, \<open>recv_ok\<close>, \<open>digest_works\<close>).

  \<^bold>\<open>Loops and bounds.\<close> Loops over a message, a buffer, a text or a connection list are total
  functions with a measure. The accept loop, the main loop of the responder, and the send and receive
  loops of the client depend on the operating system and are partial functions whose value is \<open>None\<close>
  if they do not end; that they return is proved where the system calls allow it. No fuel is used.
  Machine integers keep their width: sizes of messages are 32-bit, the response counter is 16-bit,
  lengths of records are bytes, and the unsigned comparisons and subtractions wrap as in C++.

  \<^bold>\<open>Order of the work.\<close> First the message builder with its collaborators, which carry the interface
  that other machines rely on; then responder, configuration and \<open>main\<close>; then the client, and the
  composition of both programs.

  \<^bold>\<open>Not modelled.\<close> Texts written to the consoles except the messages that \<open>nhac\<close> prints, the help texts
  (\<open>usage\<close>, \<open>formatUsage\<close>), the layout of \<open>logTpmError\<close>, error texts beyond the values they are made
  of, the tests and the packaging. The interleaving of the timer threads with start-up and the
  responder is covered by arbitrary sequences of checks and updates, and by arbitrary readings at each
  point where the code takes a lock or reads an atomic.
\<close>

section \<open>The client and the daemon\<close>

definition not_switch :: "string \<Rightarrow> bool" where
  "not_switch a \<longleftrightarrow> a = [] \<or> hd a \<noteq> CHR ''-''"

lemma parse_cli_query:
  assumes "not_switch host" and "not_switch prt" and "not_switch q"
  shows "parse_cli [host, prt, q] cli_init =
    Inr \<lparr>cli_ip = Some host, cli_port = Some prt, cli_quiet = False, cli_json = False, cli_query = CHR '' '' # q\<rparr>"
  using assms by (auto simp: not_switch_def cli_init_def)

lemma connect_out: "connectToNha os host prt c = Some (r, c') \<Longrightarrow> cl_out c' = cl_out c"
  by (auto simp: connectToNha_def log_event_def Let_def split: prod.splits if_splits option.splits)

lemma parse_blank_description:
  "parse msg (CHR '' '' # describe ts) = Inr (True, (Message_clear msg)\<lparr>tlvs := ts\<rparr>, [])"
  using parse_describe_spec [of msg ts "[]"] by (simp add: parse_def nextToken_blank blank_chars)

lemma parse_end: "parse msg [] = Inr (False, Message_clear msg, [])"
  by (simp add: parse_def nextToken_def)

lemma query_loop_end: "query_loop os pico quiet fd counter msg buffer [] c = Some (Inr (), c)"
  by (subst query_loop.simps) (simp add: parse_end)

text \<open>The client, for a query whose answer \<open>m\<close> the network brings back.\<close>

lemma nhac_main_run:
  assumes con: "connectToNha os host prt c = Some (Inr fd, c1)"
    and ex: "exchange os pico False fd 0 ((Message_clear msg0)\<lparr>tlvs := ts\<rparr>) buffer c1 = Some (Inr (response, buffer'), c')"
    and msg0: "msg0 = \<lparr>tlvs = [], receivedMd5 = None, calculatedMd5 = None, xoredMd5 = None\<rparr>"
    and "not_switch host" and "not_switch prt"
  shows "nhac_main os pico buffer [host, prt, describe ts] cin c = Some (0, c')"
proof -
  have "query_loop os pico False fd 0 msg0 buffer (CHR '' '' # describe ts) c1 = Some (Inr (), c')"
    using ex by (simp add: query_loop.simps [of _ _ _ _ _ _ _ "CHR '' '' # _"] query_loop_end parse_blank_description)
  moreover have "not_switch (describe ts)" by (simp add: not_switch_def describe_def)
  ultimately show ?thesis
    using parse_cli_query [OF assms(4,5)] con by (simp add: nhac_main_def msg0 Let_def del: parse_cli.simps)
qed

text \<open>
  C5: the whole way of a query through both programs, for any operating systems and networks
  between them. The client is started with the description of a query of the interface. If it
  gets connected (by an address that it reads from freed memory), if the bytes of the query have
  arrived at the responder completely and alone when it serves this connection and its \<open>send\<close>
  takes the answer, and if the network brings what the responder sends to the client, in
  whatever pieces but for the size field, then the responder answers and keeps the connection,
  and the client prints the query and the answer and ends with exit code 0. The answer has the
  records that were asked for, in the order of the daemon, and the XOR of the received and
  the calculated checksum is the device ID if the query asked for masking and zeros otherwise.
  The two MD5 implementations are assumed to compute the same function.
\<close>

theorem nhac_main_answered:
  assumes md5: "\<And>b. computeMD5 evp b = Some (pico b)"
    and rec: "fl \<in> {0, 2}" "\<forall>r \<in> set recs. length (snd r) < 256"
      "acceptable maxSizeOfMessage recs" "length (body_bytes (map mk_tlv recs)) \<le> 32730"
    and q: "q = wire pico (map mk_tlv (header_records fl @ recs))"
    and srv: "os_ok (\<lambda>e. watcher_inv (id_watcher e)) sos" "server_inv s"
      "recv_stream sos sfd maxSizeOfMessage (world s) = (q, RecvError EAGAIN, w1)" "os_readings sos w1 = (env, w2)"
    and taken: "\<And>m. fst (os_send sos w2 sfd m) = int (length m)"
    and cl: "length buffer = bufferSize" "not_switch host" "not_switch prt"
      "connectToNha os host prt c = Some (Inr fd, c1)"
    and link: "\<forall>s' m. handle_connection sos (createResponse evp mt) sfd s = Some (True, s') \<longrightarrow>
      trace s' = trace s @ [Query sfd q, Sent sfd m] \<longrightarrow> round_trip os fd (cl_world c1) q m"
  shows "\<exists>s' m query response c'.
    handle_connection sos (createResponse evp mt) sfd s = Some (True, s') \<and>
    trace s' = trace s @ [Query sfd q, Sent sfd m] \<and>
    nhac_main os pico buffer [host, prt, describe (map mk_tlv (header_records fl @ recs))] cin c = Some (0, c') \<and>
    tlvs query = map mk_tlv (header_records fl @ recs) \<and>
    tlvs response = map mk_tlv (header_records (reply_flags fl) @ reply_records mt env recs) \<and>
    xoredMd5 response = Some (if fl = 2 then TPMWatcher_get (id_watcher env) else replicate 16 0) \<and>
    cl_out c' = cl_out c @ Message_print query ''query_000'' @ Message_print response ''response_000''"
proof -
  let ?ts = "map mk_tlv (header_records fl @ recs)"
  have id: "watcher_inv (id_watcher env)" using srv(1,4) unfolding os_ok_def by (metis fst_conv)
  obtain m where m: "answer evp mt env maxSizeOfMessage q = Some m" and sealed:
      "sealed evp (TPMWatcher_get (id_watcher env)) (reply_flags fl) (reply_body mt env recs) = Some m" "length m = reply_total recs"
    using query_answered [OF id md5 rec] unfolding q by blast
  have "q \<noteq> []" using m by (auto simp: answer_def well_formed_query_def)
  from responder_answers [OF srv(1-3) this srv(4) m taken] obtain s' where
    s': "handle_connection sos (createResponse evp mt) sfd s = Some (True, s')" "trace s' = trace s @ [Query sfd q, Sent sfd m]"
    by blast
  define msg0 :: message where "msg0 = \<lparr>tlvs = [], receivedMd5 = None, calculatedMd5 = None, xoredMd5 = None\<rparr>"
  let ?msg = "(Message_clear msg0)\<lparr>tlvs := ?ts\<rparr>"
  have "tlvs ?msg = ?ts" by simp
  from exchange_delivered [OF id md5 rec this cl(1) sealed link [rule_format, OF s', unfolded q], where quiet = False and counter = 0, unfolded if_False]
  obtain query response buffer' c' where ex: "exchange os pico False fd 0 ?msg buffer c1 = Some (Inr (response, buffer'), c')"
    and qu: "tlvs query = ?ts" and r: "tlvs response = map mk_tlv (header_records (reply_flags fl) @ reply_records mt env recs)"
      "xoredMd5 response = Some (masked_id env fl)"
    and out: "cl_out c' = cl_out c1 @ Message_print query (''query_'' @ counterStr 0) @ Message_print response (''response_'' @ counterStr 0)"
    by (simp only: \<open>tlvs ?msg = ?ts\<close>) blast
  have cnt: "counterStr 0 = ''000''" by code_simp
  note nhac_main_run [OF cl(4) ex msg0_def cl(2,3), of cin]
  with s' qu r out cnt connect_out [OF cl(4)] show ?thesis
    by (intro exI [of _ s'] exI [of _ m] exI [of _ query] exI [of _ response] exI [of _ c']) (simp add: masked_id_def)
qed

section \<open>A dialogue\<close>

text \<open>
  The scripted peer of the client takes ten bytes at a time and holds the answer ready. The
  responder receives the sample query in two pieces.
\<close>

lemma delivers_scripted: "m \<noteq> [] \<Longrightarrow> delivers scripted_os fd [m] m"
proof (induction "length m" arbitrary: m rule: less_induct)
  case less
  have "delivers scripted_os fd (if length m \<le> n then [] else [drop n m]) (drop n m)" if "0 < n" for n
    using that less by (auto intro: delivers.drained)
  with less.prems show ?case
    by (intro delivers.piece [where b = "\<lambda>n. take n m" and w' = "\<lambda>n. if length m \<le> n then [] else [drop n m]" and m' = "\<lambda>n. drop n m"])
      (simp add: scripted_os_def)
qed

lemma sendQuery_scripted: "\<exists>c'. sendQuery scripted_os fd t c = Some (Inr (), c') \<and> cl_world c' = cl_world c"
proof (induction "length t" arbitrary: t c rule: less_induct)
  case less
  let ?c = "log_event (Wrote fd (take (min 10 (length t)) t)) (c\<lparr>cl_world := cl_world c\<rparr>)"
  have step: "sendQuery scripted_os fd t c =
      (if min 10 (length t) \<noteq> length t then sendQuery scripted_os fd (drop (min 10 (length t)) t) ?c else Some (Inr (), ?c))"
  proof -
    have "cl_send scripted_os (cl_world c) fd t = (Some (min 10 (length t)), cl_world c)" by (simp add: scripted_os_def)
    then show ?thesis by (subst sendQuery.simps) (simp add: Let_def)
  qed
  show ?case
  proof (cases "length t \<le> 10")
    case True
    then show ?thesis using step by simp
  next
    case False
    then have "length (drop 10 t) < length t" by simp
    from less [OF this, of ?c] False step show ?thesis by (simp add: min_def)
  qed
qed

lemma round_trip_scripted: "4 \<le> length m \<Longrightarrow> round_trip scripted_os fd [m] q m"
proof -
  assume m: "4 \<le> length m"
  then have "\<exists>b w'. cl_recv scripted_os [m] fd 4 = (Some b, w') \<and> length b = 4" by (simp add: scripted_os_def)
  moreover have "delivers scripted_os fd [m] m" using m by (intro delivers_scripted) auto
  ultimately show ?thesis unfolding round_trip_def using sendQuery_scripted by metis
qed

lemma sample_md5: "computeMD5 sample_digest b = Some (replicate 16 (sum_list b))"
  by (simp add: computeMD5_def sample_digest_def size_consts)

lemma sample_body: "body_bytes (map mk_tlv [(0x91, []), (0x92, [])]) = [0x91, 0, 0x92, 0]"
  by (simp add: body_bytes_def tlv_bytes_def mk_tlv_def)

lemma sample_wire: "sample_query = wire (\<lambda>b. replicate 16 (sum_list b)) (map mk_tlv (header_records 2 @ [(0x91, []), (0x92, [])]))"
  using wire_plain_message [OF sample_md5, of 2 "[(0x91, []), (0x92, [])]"] unfolding sample_body sample_query_def by simp

lemma sample_reply: "reply_records sample_timer sample_env [(0x91, []), (0x92, [])] =
    [(0x11, TPMWatcher_get sample_watcher), (0x12, toLE64 (MonotonicTimer_get sample_timer (rx_tsc sample_env)))]"
  by (simp add: reply_records_def wanted_def asked_def sample_env_def)

theorem nhac_main_answered_witness:
  "\<exists>m s' query response c'.
    handle_connection sample_os (createResponse sample_digest sample_timer) 7
      (sample_server 1 (5, [], [take 10 sample_query, drop 10 sample_query])) = Some (True, s') \<and>
    trace s' = [Query 7 sample_query, Sent 7 m] \<and>
    nhac_main scripted_os (\<lambda>b. replicate 16 (sum_list b)) (replicate bufferSize 0)
      [''localhost'', ''1234'', describe (map mk_tlv (header_records 2 @ [(0x91, []), (0x92, [])]))] [] (scripted [m]) = Some (0, c') \<and>
    tlvs query = map mk_tlv (header_records 2 @ [(0x91, []), (0x92, [])]) \<and>
    tlvs response = map mk_tlv (header_records 1 @
      [(0x11, TPMWatcher_get sample_watcher), (0x12, toLE64 (MonotonicTimer_get sample_timer (rx_tsc sample_env)))]) \<and>
    xoredMd5 response = Some (TPMWatcher_get sample_watcher) \<and>
    cl_out c' = Message_print query ''query_000'' @ Message_print response ''response_000''"
proof -
  let ?recs = "[(0x91, []), (0x92, [])] :: tlv_record list" and ?pico = "\<lambda>b :: bytes. replicate 16 (sum_list b)"
  define s where "s = sample_server 1 (5, [], [take 10 sample_query, drop 10 sample_query])"
  have acc: "acceptable maxSizeOfMessage ?recs"
    by (simp add: acceptable_def reply_total_def reply_size_def known_tag_def well_formed_record_def maxSizeOfMessage_def)
  have s: "server_inv s" "world s = (5, [], [take 10 sample_query, drop 10 sample_query])" "trace s = []"
    unfolding s_def by (rule sample_server_inv) (simp_all add: sample_server_def Responder_new_def)
  have stream: "recv_stream sample_os 7 maxSizeOfMessage (world s) = (sample_query, RecvError EAGAIN, (5, [], []))"
    unfolding s(2) by (rule sample_stream)
  have rd: "os_readings sample_os (5, [], []) = (sample_env, (5, [], []))" by (simp add: sample_os_def)
  have taken: "fst (os_send sample_os (5, [], []) 7 m) = int (length m)" for m by (simp add: sample_os_def)
  obtain m where m: "answer sample_digest sample_timer sample_env maxSizeOfMessage sample_query = Some m" "length m = reply_total ?recs"
    using query_answered [OF sample_env_inv sample_md5 _ _ acc, of 2 sample_timer] unfolding sample_wire [symmetric] sample_body by auto
  have "sample_query \<noteq> []" using sample_query_facts(1) by auto
  from responder_answers [OF sample_os_ok s(1) stream this rd m(1) taken] obtain s' where
    s': "handle_connection sample_os (createResponse sample_digest sample_timer) 7 s = Some (True, s')"
      "trace s' = trace s @ [Query 7 sample_query, Sent 7 m]" by blast
  obtain c1 where con: "connectToNha scripted_os ''localhost'' ''1234'' (scripted [m]) = Some (Inr 5, c1)" "cl_world c1 = [m]"
    by (simp add: connectToNha_def scripted_os_def scripted_def log_event_def)
  have "4 \<le> length m" using m(2) by (simp add: reply_total_def)
  then have "round_trip scripted_os 5 (cl_world c1) sample_query m" using con(2) by (simp add: round_trip_scripted)
  then have link: "\<forall>s'' m'. handle_connection sample_os (createResponse sample_digest sample_timer) 7 s = Some (True, s'') \<longrightarrow>
      trace s'' = trace s @ [Query 7 sample_query, Sent 7 m'] \<longrightarrow> round_trip scripted_os 5 (cl_world c1) sample_query m'"
    using s' by simp
  have sw: "not_switch ''localhost''" "not_switch ''1234''" by (simp_all add: not_switch_def)
  have rec: "(2 :: u8) \<in> {0, 2}" "\<forall>r \<in> set ?recs. length (snd r) < 256" "length (body_bytes (map mk_tlv ?recs)) \<le> 32730"
    "length (replicate bufferSize (0 :: u8)) = bufferSize"
    unfolding sample_body by simp_all
  note answered = nhac_main_answered [where evp = sample_digest and pico = ?pico and fl = 2 and recs = ?recs and q = sample_query
      and sos = sample_os and s = s and sfd = 7 and ?w1.0 = "(5, [], [])" and env = sample_env and ?w2.0 = "(5, [], [])"
      and buffer = "replicate bufferSize 0" and host = "''localhost''" and prt = "''1234''" and os = scripted_os
      and c = "scripted [m]" and fd = 5 and ?c1.0 = c1 and mt = sample_timer and cin = "[]"]
  from answered [OF sample_md5 rec(1,2) acc rec(3) sample_wire sample_os_ok s(1) stream rd taken rec(4) sw con(1) link]
  obtain query response c' where
    "nhac_main scripted_os ?pico (replicate bufferSize 0)
      [''localhost'', ''1234'', describe (map mk_tlv (header_records 2 @ ?recs))] [] (scripted [m]) = Some (0, c')"
    "tlvs query = map mk_tlv (header_records 2 @ ?recs)"
    "tlvs response = map mk_tlv (header_records (reply_flags 2) @ reply_records sample_timer sample_env ?recs)"
    "xoredMd5 response = Some (if (2 :: u8) = 2 then TPMWatcher_get (id_watcher sample_env) else replicate 16 0)"
    "cl_out c' = cl_out (scripted [m]) @ Message_print query ''query_000'' @ Message_print response ''response_000''"
    by blast
  moreover have "reply_flags 2 = 1" "id_watcher sample_env = sample_watcher" "cl_out (scripted [m]) = []"
    by (simp_all add: reply_flags_def sample_env_def scripted_def)
  ultimately show ?thesis using s'(1) [unfolded s_def] s'(2) [unfolded s(3)] unfolding sample_reply
    by - (rule exI [of _ m], rule exI [of _ s'], rule exI [of _ query], rule exI [of _ response], rule exI [of _ c'], simp)
qed

end
